theory Spec2Isabelle
  imports Main "HOL-Library.Sublist"
begin

section \<open>Strings and the \<open>strings\<close> package\<close>

text \<open>
  A Go string is a sequence of bytes; it is modelled as \<open>string\<close> (a list of \<open>char\<close>,
  one per byte).  \<open>lower_byte\<close> folds the ASCII letters only; it is what the routines
  of \<open>strconv\<close> use to compare without regard to case.
\<close>

definition ascii_upper :: string where
  "ascii_upper = ''ABCDEFGHIJKLMNOPQRSTUVWXYZ''"

definition ascii_lower :: string where
  "ascii_lower = ''abcdefghijklmnopqrstuvwxyz''"

definition lower_byte :: "char \<Rightarrow> char" where
  "lower_byte c = (case map_of (zip ascii_upper ascii_lower) c of Some d \<Rightarrow> d | None \<Rightarrow> c)"

subsection \<open>UTF-8 (package \<open>unicode/utf8\<close>)\<close>

text \<open>
  A rune is an \<open>int\<close>.  \<open>lead_class\<close> is the table \<open>first\<close> with \<open>acceptRanges\<close>: for
  a leading byte of a sequence of several bytes, the length of the sequence and the range
  of its second byte.  \<open>DecodeRune b0 rest\<close> is \<open>utf8.DecodeRuneInString\<close> on the
  string that starts with the byte \<open>b0\<close> and goes on with \<open>rest\<close>: the rune and the
  number of bytes it takes; a byte that starts no well-formed sequence is the rune
  \<open>RuneError\<close> of width 1.
\<close>

definition RuneError :: int where
  "RuneError = 65533"

definition lead_class :: "int \<Rightarrow> (nat \<times> int \<times> int) option" where
  "lead_class b =
     (if 194 \<le> b \<and> b \<le> 223 then Some (2, 128, 191)
      else if b = 224 then Some (3, 160, 191)
      else if (225 \<le> b \<and> b \<le> 236) \<or> b = 238 \<or> b = 239 then Some (3, 128, 191)
      else if b = 237 then Some (3, 128, 159)
      else if b = 240 then Some (4, 144, 191)
      else if 241 \<le> b \<and> b \<le> 243 then Some (4, 128, 191)
      else if b = 244 then Some (4, 128, 143)
      else None)"

definition DecodeRune :: "int \<Rightarrow> string \<Rightarrow> int \<times> nat" where
  "DecodeRune b0 rest =
     (if b0 < 128 then (b0, 1)
      else case lead_class b0 of
             None \<Rightarrow> (RuneError, 1)
           | Some (sz, lo, hi) \<Rightarrow>
               (let cs = map of_char (take (sz - 1) rest)
                in if length cs = sz - 1 \<and> lo \<le> hd cs \<and> hd cs \<le> hi \<and>
                      list_all (\<lambda>c. 128 \<le> c \<and> c \<le> 191) (tl cs)
                   then (foldl (\<lambda>acc c. acc * 64 + (c - 128))
                           (b0 - (if sz = 2 then 192 else if sz = 3 then 224 else 240)) cs, sz)
                   else (RuneError, 1)))"

text \<open>The runes of a string, as \<open>for _, c := range s\<close> yields them.\<close>

function runes :: "string \<Rightarrow> int list" where
  "runes [] = []"
| "runes (c # cs) =
     (case DecodeRune (of_char c) cs of (r, n) \<Rightarrow> r # runes (drop (n - 1) cs))"
  by pat_completeness auto
termination
  by (relation "measure length") auto

declare runes.simps(2) [simp del]

text \<open>
  \<open>utf8.AppendRune\<close>: the bytes of a rune; a value that is no Unicode scalar value is
  written as \<open>RuneError\<close>.
\<close>

definition AppendRune :: "int \<Rightarrow> string" where
  "AppendRune r =
     (if 0 \<le> r \<and> r < 128 then [char_of r]
      else if 128 \<le> r \<and> r < 2048 then [char_of (192 + r div 64), char_of (128 + r mod 64)]
      else if r < 0 \<or> 1114111 < r \<or> (55296 \<le> r \<and> r \<le> 57343) then
        [char_of (239 :: int), char_of (191 :: int), char_of (189 :: int)]
      else if r < 65536 then
        [char_of (224 + r div 4096), char_of (128 + (r div 64) mod 64), char_of (128 + r mod 64)]
      else
        [char_of (240 + r div 262144), char_of (128 + (r div 4096) mod 64),
         char_of (128 + (r div 64) mod 64), char_of (128 + r mod 64)])"

subsection \<open>Case tables (package \<open>unicode\<close>)\<close>

text \<open>
  The case tables of package \<open>unicode\<close> are not part of the repository.  They are a
  parameter of the model: \<open>ToLowerRune\<close> is \<open>unicode.ToLower\<close> and \<open>foldRune\<close> is the
  least rune of the orbit of \<open>unicode.SimpleFold\<close> (the function \<open>foldRune\<close> of
  \<open>encoding/json\<close>), both taken on the runes above \<open>0x7F\<close> only; the ASCII runes are
  handled by the code that is modelled below.
\<close>

record unicode_tables =
  ToLowerRune :: "int \<Rightarrow> int"
  foldRune :: "int \<Rightarrow> int"

definition unicode_ToLower :: "unicode_tables \<Rightarrow> int \<Rightarrow> int" where
  "unicode_ToLower U r =
     (if r \<le> 127 then (if 65 \<le> r \<and> r \<le> 90 then r + 32 else r) else ToLowerRune U r)"

text \<open>
  \<open>strings.ToLower\<close>: every rune of the string is mapped by \<open>unicode.ToLower\<close> and
  written back; a byte that is not UTF-8 comes out as \<open>RuneError\<close>, and a negative
  result of the mapping is dropped (\<open>strings.Map\<close>).
\<close>

definition ToLower :: "unicode_tables \<Rightarrow> string \<Rightarrow> string" where
  "ToLower U s =
     concat (map (\<lambda>c. let r = unicode_ToLower U c in if 0 \<le> r then AppendRune r else [])
               (runes s))"

text \<open>
  The encoder of \<open>encoding/json\<close> writes every byte of a string that is not UTF-8 as
  \<open>RuneError\<close>: the string it writes is \<open>valid_utf8\<close> of the string.
\<close>

definition valid_utf8 :: "string \<Rightarrow> string" where
  "valid_utf8 s = concat (map AppendRune (runes s))"

fun HasPrefix :: "string \<Rightarrow> string \<Rightarrow> bool" where
  "HasPrefix s [] = True"
| "HasPrefix [] (p # ps) = False"
| "HasPrefix (c # cs) (p # ps) = (c = p \<and> HasPrefix cs ps)"

definition TrimPrefix :: "string \<Rightarrow> string \<Rightarrow> string" where
  "TrimPrefix s p = (if HasPrefix s p then drop (length p) s else s)"

text \<open>
  \<open>strings.SplitN(s, "=", 2)\<close>: at most two parts, cut at the first \<open>=\<close>; a string
  without \<open>=\<close> comes back as the single part \<open>[s]\<close>.
\<close>

definition SplitN_eq2 :: "string \<Rightarrow> string list" where
  "SplitN_eq2 s =
     (if CHR ''='' \<in> set s
      then [takeWhile (\<lambda>c. c \<noteq> CHR ''='') s, tl (dropWhile (\<lambda>c. c \<noteq> CHR ''='') s)]
      else [s])"

section \<open>The \<open>strconv\<close> package\<close>

text \<open>
  \<open>strconv.ParseBool\<close> accepts exactly twelve spellings.
\<close>

definition ParseBool :: "string \<Rightarrow> bool option" where
  "ParseBool s =
     (if s \<in> set [''1'', ''t'', ''T'', ''TRUE'', ''true'', ''True''] then Some True
      else if s \<in> set [''0'', ''f'', ''F'', ''FALSE'', ''false'', ''False''] then Some False
      else None)"

definition digit_of :: "char \<Rightarrow> int option" where
  "digit_of c = map_of (zip ''0123456789'' [0, 1, 2, 3, 4, 5, 6, 7, 8, 9]) c"

text \<open>Reads a digit string most significant digit first; \<open>None\<close> at the first byte that is no digit.\<close>

fun digits_val :: "int \<Rightarrow> string \<Rightarrow> int option" where
  "digits_val acc [] = Some acc"
| "digits_val acc (c # cs) =
     (case digit_of c of None \<Rightarrow> None | Some d \<Rightarrow> digits_val (acc * 10 + d) cs)"

text \<open>
  \<open>strconv.Atoi\<close> on a 64-bit platform: an optional sign, then at least one decimal
  digit and nothing else (no underscore, no base prefix); a value outside the range of
  \<open>int\<close> is a range error.  Both errors are \<open>None\<close>: \<open>parseValue\<close> only tests
  \<open>err == nil\<close>.
\<close>

definition int_min :: int where "int_min = - (2 ^ 63)"
definition int_max :: int where "int_max = 2 ^ 63 - 1"

definition Atoi :: "string \<Rightarrow> int option" where
  "Atoi s =
     (let (neg, body) = (case s of
                           c # cs \<Rightarrow> if c = CHR ''-'' then (True, cs)
                                     else if c = CHR ''+'' then (False, cs) else (False, s)
                         | [] \<Rightarrow> (False, s))
      in if body = [] then None
         else case digits_val 0 body of
                None \<Rightarrow> None
              | Some n \<Rightarrow>
                  (let v = (if neg then - n else n)
                   in if int_min \<le> v \<and> v \<le> int_max then Some v else None))"

subsection \<open>64-bit floating-point values\<close>

text \<open>
  A \<open>float64\<close> is modelled exactly: a finite value is \<open>(-1)\<^sup>s \<cdot> m \<cdot> 2\<^sup>e\<close> with the sign
  \<open>s\<close> (\<open>True\<close> for negative), the mantissa \<open>m < 2\<^sup>5\<^sup>3\<close> and the binary exponent
  \<open>e \<ge> -1074\<close>, kept in the canonical form that \<open>float64_of_ratio\<close> produces; the
  other values are the two infinities and NaN.
\<close>

datatype float64 = Finite bool int int | Inf bool | NaN

function bits :: "int \<Rightarrow> int" where
  "bits n = (if n \<le> 0 then 0 else 1 + bits (n div 2))"
  by pat_completeness auto
termination
  by (relation "measure nat") auto

declare bits.simps [simp del]

definition pow2 :: "int \<Rightarrow> int" where
  "pow2 k = 2 ^ nat k"

text \<open>\<open>ratio_ge n d k\<close>: \<open>n / d \<ge> 2\<^sup>k\<close>, in integer arithmetic.\<close>

definition ratio_ge :: "int \<Rightarrow> int \<Rightarrow> int \<Rightarrow> bool" where
  "ratio_ge n d k = (if 0 \<le> k then d * pow2 k \<le> n else d \<le> n * pow2 (- k))"

text \<open>Division rounded to the nearest integer, a tie to the even one.\<close>

definition div_nearest_even :: "int \<Rightarrow> int \<Rightarrow> int" where
  "div_nearest_even n d =
     (let q = n div d; r = n mod d
      in if 2 * r < d then q
         else if d < 2 * r then q + 1
         else if even q then q else q + 1)"

text \<open>
  The \<open>float64\<close> nearest to \<open>\<plusminus> n / d\<close> (\<open>0 \<le> n\<close>, \<open>0 < d\<close>) under IEEE 754
  round-to-nearest-even, as \<open>strconv.ParseFloat\<close> computes it; \<open>None\<close> when the
  rounded value is beyond the largest finite \<open>float64\<close> (Go returns \<open>\<plusminus>Inf\<close> with a
  range error there).  A value too small to represent rounds to zero without error.
\<close>

definition float64_of_ratio :: "bool \<Rightarrow> int \<Rightarrow> int \<Rightarrow> float64 option" where
  "float64_of_ratio neg n d =
     (if n = 0 then Some (Finite neg 0 0)
      else
        let lb = bits n - bits d;
            e = (if ratio_ge n d lb then lb else lb - 1);
            u = max (e - 52) (- 1074);
            m = (if 0 \<le> u then div_nearest_even n (d * pow2 u)
                 else div_nearest_even (n * pow2 (- u)) d)
        in if m = 0 then Some (Finite neg 0 0)
           else if m = 2 ^ 53 then
             (if 971 \<le> u then None else Some (Finite neg (2 ^ 52) (u + 1)))
           else if 971 < u then None
           else Some (Finite neg m u))"

text \<open>The integer a finite \<open>float64\<close> denotes, if it denotes one.\<close>

fun float64_int :: "float64 \<Rightarrow> int option" where
  "float64_int (Finite s m e) =
     (if 0 \<le> e then Some ((if s then - 1 else 1) * m * pow2 e)
      else if m mod pow2 (- e) = 0 then Some ((if s then - 1 else 1) * (m div pow2 (- e)))
      else None)"
| "float64_int (Inf s) = None"
| "float64_int NaN = None"

subsection \<open>\<open>strconv.ParseFloat(s, 64)\<close>\<close>

definition hexdigit_of :: "char \<Rightarrow> int option" where
  "hexdigit_of c =
     map_of (zip ''0123456789abcdef'' [0, 1, 2, 3, 4, 5, 6, 7, 8, 9, 10, 11, 12, 13, 14, 15])
       (lower_byte c)"

text \<open>An optional leading sign: negative?, the rest, and whether a sign was there.\<close>

fun split_sign :: "string \<Rightarrow> bool \<times> string \<times> bool" where
  "split_sign [] = (False, [], False)"
| "split_sign (c # cs) =
     (if c = CHR ''-'' then (True, cs, True)
      else if c = CHR ''+'' then (False, cs, True)
      else (False, c # cs, False))"

text \<open>
  \<open>special\<close>: the spellings of infinity (optionally signed) and of NaN (unsigned),
  compared without regard to ASCII case.  Only a match of the whole string counts,
  since \<open>ParseFloat\<close> rejects trailing bytes.
\<close>

definition special :: "string \<Rightarrow> float64 option" where
  "special s =
     (case split_sign s of (neg, body, signed) \<Rightarrow>
        if map lower_byte body \<in> set [''inf'', ''infinity''] then Some (Inf neg)
        else if \<not> signed \<and> map lower_byte s = ''nan'' then Some NaN
        else None)"

text \<open>
  \<open>underscoreOK\<close>: an underscore may stand only between digits, or between a base
  prefix and a digit.  \<open>saw\<close> is the class of the last byte seen.
\<close>

fun underscoreOK_loop :: "bool \<Rightarrow> char \<Rightarrow> string \<Rightarrow> bool" where
  "underscoreOK_loop hex saw [] = (saw \<noteq> CHR ''_'')"
| "underscoreOK_loop hex saw (c # cs) =
     (if digit_of c \<noteq> None \<or> (hex \<and> hexdigit_of c \<noteq> None)
        then underscoreOK_loop hex (CHR ''0'') cs
      else if c = CHR ''_''
        then (if saw \<noteq> CHR ''0'' then False else underscoreOK_loop hex (CHR ''_'') cs)
      else if saw = CHR ''_'' then False
      else underscoreOK_loop hex (CHR ''!'') cs)"

definition underscoreOK :: "string \<Rightarrow> bool" where
  "underscoreOK s =
     (case split_sign s of (neg, body, signed) \<Rightarrow>
        (case body of
           c0 # c1 # rest \<Rightarrow>
             if c0 = CHR ''0'' \<and> lower_byte c1 \<in> set ''box''
             then underscoreOK_loop (lower_byte c1 = CHR ''x'') (CHR ''0'') rest
             else underscoreOK_loop False (CHR ''^'') body
         | _ \<Rightarrow> underscoreOK_loop False (CHR ''^'') body))"

text \<open>
  The mantissa loop of \<open>readFloat\<close>: digits (hexadecimal ones under a \<open>0x\<close> prefix),
  underscores, and at most one point.  It returns whether a digit was seen, the digits
  read as one integer in the base, how many of them followed the point, and the unread
  rest.
\<close>

fun scan_mantissa :: "bool \<Rightarrow> bool \<Rightarrow> bool \<Rightarrow> int \<Rightarrow> int \<Rightarrow> string \<Rightarrow> bool \<times> int \<times> int \<times> string" where
  "scan_mantissa hex sawdot sawdigits m k [] = (sawdigits, m, k, [])"
| "scan_mantissa hex sawdot sawdigits m k (c # cs) =
     (if c = CHR ''_'' then scan_mantissa hex sawdot sawdigits m k cs
      else if c = CHR ''.'' then
        (if sawdot then (sawdigits, m, k, c # cs)
         else scan_mantissa hex True sawdigits m k cs)
      else case (if hex then hexdigit_of c else digit_of c) of
             Some d \<Rightarrow>
               scan_mantissa hex sawdot True
                 (m * (if hex then 16 else 10) + d) (if sawdot then k + 1 else k) cs
           | None \<Rightarrow> (sawdigits, m, k, c # cs))"

text \<open>
  The exponent digits: digits and underscores up to the end of the string; the value
  stops growing once it has reached 10000, as in the source.
\<close>

fun scan_exp_digits :: "int \<Rightarrow> string \<Rightarrow> int option" where
  "scan_exp_digits e [] = Some e"
| "scan_exp_digits e (c # cs) =
     (if c = CHR ''_'' then scan_exp_digits e cs
      else case digit_of c of
             None \<Rightarrow> None
           | Some d \<Rightarrow> scan_exp_digits (if e < 10000 then e * 10 + d else e) cs)"

text \<open>
  The optional exponent after the mantissa, which must reach the end of the string:
  \<open>Some e\<close> is the signed exponent (0 when there is none), \<open>None\<close> a syntax error.  A
  hexadecimal mantissa requires its \<open>p\<close> exponent.
\<close>

definition scan_exponent :: "bool \<Rightarrow> string \<Rightarrow> int option" where
  "scan_exponent hex rest =
     (case rest of
        [] \<Rightarrow> if hex then None else Some 0
      | c # cs \<Rightarrow>
          if lower_byte c = (if hex then CHR ''p'' else CHR ''e'') then
            (case split_sign cs of (eneg, ds, signed) \<Rightarrow>
               (case ds of
                  [] \<Rightarrow> None
                | d0 # _ \<Rightarrow>
                    if digit_of d0 = None then None
                    else (case scan_exp_digits 0 ds of
                            None \<Rightarrow> None
                          | Some e \<Rightarrow> Some (if eneg then - e else e))))
          else None)"

text \<open>
  \<open>ParseFloat(s, 64)\<close>: \<open>Some f\<close> when the error is nil, \<open>None\<close> for a syntax or a
  range error.  The value of a well-formed literal is \<open>m \<cdot> 10\<^sup>x\<close> (decimal) or
  \<open>m \<cdot> 2\<^sup>x\<close> (hexadecimal), rounded by \<open>float64_of_ratio\<close>.
\<close>

definition parse_number :: "string \<Rightarrow> float64 option" where
  "parse_number s =
     (case split_sign s of (neg, body, signed) \<Rightarrow>
        (let hex = (case body of
                      c0 # c1 # _ # _ \<Rightarrow> c0 = CHR ''0'' \<and> lower_byte c1 = CHR ''x''
                    | _ \<Rightarrow> False);
             digits = (if hex then drop 2 body else body)
         in (case scan_mantissa hex False False 0 0 digits of
               (sawdigits, m, k, rest) \<Rightarrow>
                 (if \<not> sawdigits then None
                  else (case scan_exponent hex rest of
                          None \<Rightarrow> None
                        | Some e \<Rightarrow>
                            (if CHR ''_'' \<in> set s \<and> \<not> underscoreOK s then None
                             else
                               (let b = (if hex then 2 else 10);
                                    x = (if hex then e - 4 * k else e - k)
                                in (if 0 \<le> x then float64_of_ratio neg (m * b ^ nat x) 1
                                    else float64_of_ratio neg m (b ^ nat (- x))))))))))"

definition ParseFloat :: "string \<Rightarrow> float64 option" where
  "ParseFloat s = (case special s of Some f \<Rightarrow> Some f | None \<Rightarrow> parse_number s)"

section \<open>The overlay\<close>

text \<open>
  The dynamic values an \<open>interface{}\<close> of the overlay can hold: \<open>nil\<close>, \<open>bool\<close>,
  \<open>int\<close>, \<open>float64\<close>, \<open>string\<close>, \<open>[]interface{}\<close> and
  \<open>map[string]interface{}\<close>.
\<close>

datatype gval =
    VNil
  | VBool bool
  | VInt int
  | VFloat float64
  | VString string
  | VSlice "gval list"
  | VMap "(string \<times> gval) list"

text \<open>
  \<open>configMap\<close>, a \<open>map[string]interface{}\<close>, is an association list with one entry
  per key; \<open>assign m k v\<close> is the statement \<open>m[k] = v\<close>, and a key is looked up with
  \<open>map_of\<close>.
\<close>

type_synonym overlay = "(string \<times> gval) list"

fun assign :: "(string \<times> 'v) list \<Rightarrow> string \<Rightarrow> 'v \<Rightarrow> (string \<times> 'v) list" where
  "assign [] k v = [(k, v)]"
| "assign ((k', v') # m) k v = (if k' = k then (k, v) # m else (k', v') # assign m k v)"

definition keys :: "(string \<times> 'v) list \<Rightarrow> string set" where
  "keys m = fst ` set m"

section \<open>\<open>parseValue\<close>\<close>

text \<open>
  \<open>parseValue\<close> (load.go, lines 192-210): boolean first, then \<open>int\<close>, then
  \<open>float64\<close>, and the string itself when all three fail.
\<close>

definition parseValue :: "string \<Rightarrow> gval" where
  "parseValue v =
     (case ParseBool v of
        Some boolVal \<Rightarrow> VBool boolVal
      | None \<Rightarrow>
         (case Atoi v of
            Some intVal \<Rightarrow> VInt intVal
          | None \<Rightarrow>
             (case ParseFloat v of
                Some floatVal \<Rightarrow> VFloat floatVal
              | None \<Rightarrow> VString v)))"

section \<open>The loader configuration and the source overlays\<close>

text \<open>
  \<open>AppSettings[T]\<close>: a slice or pointer that is \<open>nil\<close> is \<open>None\<close>.
\<close>

record AppSettings =
  withArgs :: "string list option"
  withEnvVars :: "string list option"
  withEnvironment :: "string option"
  withConfigDirectory :: "string option"

definition New :: AppSettings where
  "New = \<lparr>withArgs = None, withEnvVars = None, withEnvironment = None,
           withConfigDirectory = None\<rparr>"

definition WithArgs :: "string list option \<Rightarrow> AppSettings \<Rightarrow> AppSettings" where
  "WithArgs args a = a\<lparr>withArgs := args\<rparr>"

definition WithEnvVars :: "string list option \<Rightarrow> AppSettings \<Rightarrow> AppSettings" where
  "WithEnvVars env a = a\<lparr>withEnvVars := env\<rparr>"

definition WithEnvironment :: "string \<Rightarrow> AppSettings \<Rightarrow> AppSettings" where
  "WithEnvironment environment a = a\<lparr>withEnvironment := Some environment\<rparr>"

definition WithConfigDirectory :: "string \<Rightarrow> AppSettings \<Rightarrow> AppSettings" where
  "WithConfigDirectory configDirectory a = a\<lparr>withConfigDirectory := Some configDirectory\<rparr>"

text \<open>
  The errors of the pipeline.  \<open>Load\<close> wraps the error of a stage with the name of the
  stage.
\<close>

datatype error =
    ExecutableError
  | ReadError
  | SyntaxError
  | UnmarshalTypeError
  | UnsupportedValueError

text \<open>The body of the loop of \<open>loadEnvVars\<close> (load.go, lines 150-161), for one entry.\<close>

definition envVar_step :: "unicode_tables \<Rightarrow> overlay \<Rightarrow> string \<Rightarrow> overlay" where
  "envVar_step U configMap envVar =
     (case SplitN_eq2 envVar of
        [name, v] \<Rightarrow> assign configMap (ToLower U name) (parseValue v)
      | _ \<Rightarrow> configMap)"

definition loadEnvVars :: "unicode_tables \<Rightarrow> AppSettings \<Rightarrow> overlay \<Rightarrow> error + overlay" where
  "loadEnvVars U a configMap =
     (case withEnvVars a of
        None \<Rightarrow> Inr configMap
      | Some env \<Rightarrow> Inr (foldl (envVar_step U) configMap env))"

text \<open>
  The loop of \<open>loadArgs\<close> (load.go, lines 173-186) over the arguments from index
  \<open>i\<close> on: the list is the remaining arguments, its head is \<open>arg\<close> and the head of its
  tail, if any, is \<open>a.withArgs[i+1]\<close>.
\<close>

fun loadArgs_loop :: "unicode_tables \<Rightarrow> string list \<Rightarrow> overlay \<Rightarrow> overlay" where
  "loadArgs_loop U [] configMap = configMap"
| "loadArgs_loop U (arg # rest) configMap =
     (if HasPrefix arg ''--'' then
        (let key = ToLower U (TrimPrefix arg ''--'')
         in (case rest of
               nxt # _ \<Rightarrow>
                 (if \<not> HasPrefix nxt ''--''
                  then loadArgs_loop U rest (assign configMap key (parseValue nxt))
                  else loadArgs_loop U rest (assign configMap key (VBool True)))
             | [] \<Rightarrow> loadArgs_loop U rest (assign configMap key (VBool True))))
      else loadArgs_loop U rest configMap)"

definition loadArgs :: "unicode_tables \<Rightarrow> AppSettings \<Rightarrow> overlay \<Rightarrow> error + overlay" where
  "loadArgs U a configMap =
     (case withArgs a of
        None \<Rightarrow> Inr configMap
      | Some args \<Rightarrow> Inr (loadArgs_loop U args configMap))"

section \<open>The \<open>encoding/json\<close> package\<close>

text \<open>
  JSON text is modelled by the document it denotes.  A number keeps the form of its
  literal, because the decoder treats the forms differently: \<open>IntLit s n\<close> is a literal
  of digits only (\<open>s\<close>: a leading minus), \<open>FracLit s m x\<close> a literal with a fraction or
  an exponent, of value \<open>\<plusminus> m \<cdot> 10\<^sup>x\<close>, and \<open>FloatLit f\<close> the literal with a fraction or
  an exponent that the encoder writes for the \<open>float64\<close> \<open>f\<close> (the shortest one that
  reads back as \<open>f\<close>).  The members of an object are in the order of the text.
\<close>

datatype jnumber = IntLit bool int | FracLit bool int int | FloatLit float64

datatype json =
    JNull
  | JBool bool
  | JNumber jnumber
  | JString string
  | JArray "json list"
  | JObject "(string \<times> json) list"

text \<open>A number literal read as \<open>float64\<close> (\<open>ParseFloat\<close>) and as \<open>int\<close> (\<open>ParseInt\<close>).\<close>

fun number_float64 :: "jnumber \<Rightarrow> float64 option" where
  "number_float64 (IntLit s n) = float64_of_ratio s n 1"
| "number_float64 (FracLit s m x) =
     (if 0 \<le> x then float64_of_ratio s (m * 10 ^ nat x) 1
      else float64_of_ratio s m (10 ^ nat (- x)))"
| "number_float64 (FloatLit f) = Some f"

fun number_int :: "jnumber \<Rightarrow> int option" where
  "number_int (IntLit s n) =
     (let v = (if s then - n else n)
      in if int_min \<le> v \<and> v \<le> int_max then Some v else None)"
| "number_int (FracLit s m x) = None"
| "number_int (FloatLit f) = None"

subsection \<open>Decoding into \<open>interface{}\<close> and into \<open>map[string]interface{}\<close>\<close>

text \<open>
  A number becomes a \<open>float64\<close>, an object a map (a repeated key keeps its last
  value), an array a slice.  A number outside the range of \<open>float64\<close> makes the whole
  \<open>Unmarshal\<close> return an error.
\<close>

fun valueInterface :: "json \<Rightarrow> error + gval"
  and arrayInterface :: "json list \<Rightarrow> error + gval list"
  and objectInterface :: "(string \<times> json) list \<Rightarrow> (string \<times> gval) list \<Rightarrow> error + (string \<times> gval) list"
where
  "valueInterface JNull = Inr VNil"
| "valueInterface (JBool b) = Inr (VBool b)"
| "valueInterface (JNumber n) =
     (case number_float64 n of None \<Rightarrow> Inl UnmarshalTypeError | Some f \<Rightarrow> Inr (VFloat f))"
| "valueInterface (JString s) = Inr (VString s)"
| "valueInterface (JArray xs) =
     (case arrayInterface xs of Inl e \<Rightarrow> Inl e | Inr vs \<Rightarrow> Inr (VSlice vs))"
| "valueInterface (JObject kvs) =
     (case objectInterface kvs [] of Inl e \<Rightarrow> Inl e | Inr m \<Rightarrow> Inr (VMap m))"
| "arrayInterface [] = Inr []"
| "arrayInterface (x # xs) =
     (case valueInterface x of
        Inl e \<Rightarrow> Inl e
      | Inr v \<Rightarrow> (case arrayInterface xs of Inl e \<Rightarrow> Inl e | Inr vs \<Rightarrow> Inr (v # vs)))"
| "objectInterface [] m = Inr m"
| "objectInterface (kv # kvs) m =
     (case valueInterface (snd kv) of
        Inl e \<Rightarrow> Inl e
      | Inr v \<Rightarrow> objectInterface kvs (assign m (fst kv) v))"

text \<open>
  \<open>json.Unmarshal(data, &fileConfig)\<close> with \<open>fileConfig\<close> a nil
  \<open>map[string]interface{}\<close>.  \<open>data\<close> is \<open>None\<close> when the bytes are no JSON text at
  all.  The literal \<open>null\<close> leaves the map nil and is no error; any other value that is
  not an object is a type error.
\<close>

fun Unmarshal_map :: "json option \<Rightarrow> error + (string \<times> gval) list" where
  "Unmarshal_map None = Inl SyntaxError"
| "Unmarshal_map (Some JNull) = Inr []"
| "Unmarshal_map (Some (JObject kvs)) = objectInterface kvs []"
| "Unmarshal_map (Some (JBool b)) = Inl UnmarshalTypeError"
| "Unmarshal_map (Some (JNumber n)) = Inl UnmarshalTypeError"
| "Unmarshal_map (Some (JString s)) = Inl UnmarshalTypeError"
| "Unmarshal_map (Some (JArray xs)) = Inl UnmarshalTypeError"

subsection \<open>Encoding\<close>

text \<open>Byte-wise order of strings, the order in which \<open>Marshal\<close> writes the keys of a map.\<close>

fun bytes_le :: "string \<Rightarrow> string \<Rightarrow> bool" where
  "bytes_le [] t = True"
| "bytes_le (c # cs) [] = False"
| "bytes_le (c # cs) (d # ds) =
     (if c = d then bytes_le cs ds else (of_char c :: nat) < of_char d)"

fun insert_sorted :: "string \<times> 'v \<Rightarrow> (string \<times> 'v) list \<Rightarrow> (string \<times> 'v) list" where
  "insert_sorted kv [] = [kv]"
| "insert_sorted kv (x # xs) =
     (if bytes_le (fst kv) (fst x) then kv # x # xs else x # insert_sorted kv xs)"

definition sort_keys :: "(string \<times> 'v) list \<Rightarrow> (string \<times> 'v) list" where
  "sort_keys m = foldr insert_sorted m []"

function ndigits :: "int \<Rightarrow> int" where
  "ndigits n = (if n \<le> 0 then 0 else 1 + ndigits (n div 10))"
  by pat_completeness auto
termination
  by (relation "measure nat") auto

declare ndigits.simps [simp del]

text \<open>
  The digits the encoder writes for an integral \<open>float64\<close> of value \<open>v\<close> in the plain
  (\<open>'f'\<close>) format: the decimal with the fewest significant digits that reads back as the
  same \<open>float64\<close>, padded with zeros.  \<open>shortest_from v k\<close> tries the multiples of
  \<open>10\<^sup>k\<close> next to \<open>v\<close>, for \<open>k\<close> downwards.
\<close>

fun shortest_from :: "int \<Rightarrow> nat \<Rightarrow> int" where
  "shortest_from v 0 = v"
| "shortest_from v (Suc k) =
     (let lo = (v div 10 ^ Suc k) * 10 ^ Suc k;
          hi = lo + 10 ^ Suc k;
          f = float64_of_ratio False v 1;
          oklo = (float64_of_ratio False lo 1 = f);
          okhi = (float64_of_ratio False hi 1 = f)
      in if oklo \<and> okhi then (if v - lo \<le> hi - v then lo else hi)
         else if oklo then lo
         else if okhi then hi
         else shortest_from v k)"

definition shortest_int :: "int \<Rightarrow> int" where
  "shortest_int v = shortest_from v (nat (ndigits v - 1))"

text \<open>
  The literal of a \<open>float64\<close>: none for NaN and the infinities
  (\<open>UnsupportedValueError\<close>); digits only for an integral value below \<open>10\<^sup>2\<^sup>1\<close>; a
  literal with a fraction or an exponent otherwise.
\<close>

fun float_literal :: "float64 \<Rightarrow> jnumber option" where
  "float_literal (Finite s m e) =
     (case float64_int (Finite False m e) of
        Some v \<Rightarrow> if v < 10 ^ 21 then Some (IntLit s (shortest_int v))
                  else Some (FloatLit (Finite s m e))
      | None \<Rightarrow> Some (FloatLit (Finite s m e)))"
| "float_literal (Inf s) = None"
| "float_literal NaN = None"

text \<open>
  \<open>json.Marshal\<close> of a value of the overlay.  The members of a map are written in the
  byte-wise order of its keys.  In a string, and in a key, a byte that is not UTF-8 is
  written as \<open>RuneError\<close>.
\<close>

fun Marshal :: "gval \<Rightarrow> error + json"
  and Marshal_list :: "gval list \<Rightarrow> error + json list"
  and Marshal_members :: "(string \<times> gval) list \<Rightarrow> error + (string \<times> json) list"
where
  "Marshal VNil = Inr JNull"
| "Marshal (VBool b) = Inr (JBool b)"
| "Marshal (VInt n) = Inr (JNumber (IntLit (n < 0) (abs n)))"
| "Marshal (VFloat f) =
     (case float_literal f of None \<Rightarrow> Inl UnsupportedValueError | Some l \<Rightarrow> Inr (JNumber l))"
| "Marshal (VString s) = Inr (JString (valid_utf8 s))"
| "Marshal (VSlice vs) =
     (case Marshal_list vs of Inl e \<Rightarrow> Inl e | Inr js \<Rightarrow> Inr (JArray js))"
| "Marshal (VMap m) =
     (case Marshal_members m of
        Inl e \<Rightarrow> Inl e
      | Inr kvs \<Rightarrow> Inr (JObject (map (\<lambda>kv. (valid_utf8 (fst kv), snd kv)) (sort_keys kvs))))"
| "Marshal_list [] = Inr []"
| "Marshal_list (v # vs) =
     (case Marshal v of
        Inl e \<Rightarrow> Inl e
      | Inr j \<Rightarrow> (case Marshal_list vs of Inl e \<Rightarrow> Inl e | Inr js \<Rightarrow> Inr (j # js)))"
| "Marshal_members [] = Inr []"
| "Marshal_members (kv # m) =
     (case Marshal (snd kv) of
        Inl e \<Rightarrow> Inl e
      | Inr j \<Rightarrow>
          (case Marshal_members m of Inl e \<Rightarrow> Inl e | Inr kvs \<Rightarrow> Inr ((fst kv, j) # kvs)))"

subsection \<open>Decoding into the schema type\<close>

text \<open>
  The schema type \<open>T\<close> is a struct whose fields have the kinds \<open>bool\<close>, \<open>int\<close>,
  \<open>float64\<close>, \<open>string\<close> and \<open>interface{}\<close>.  A field is given by the key the
  decoder knows it by (the name in its \<open>json\<close> tag, or the field name when there is no
  tag) and its kind; a value of \<open>T\<close> lists the value of each field under that key.
  The keys of the fields of a struct are distinct.
\<close>

datatype ftype = TBool | TInt | TFloat64 | TString | TAny

type_synonym schema = "(string \<times> ftype) list"

type_synonym typed_result = "(string \<times> gval) list"

fun zero :: "ftype \<Rightarrow> gval" where
  "zero TBool = VBool False"
| "zero TInt = VInt 0"
| "zero TFloat64 = VFloat (Finite False 0 0)"
| "zero TString = VString []"
| "zero TAny = VNil"

definition zero_instance :: "schema \<Rightarrow> typed_result" where
  "zero_instance T = map (\<lambda>(name, t). (name, zero t)) T"

text \<open>
  \<open>foldName\<close> of \<open>encoding/json\<close> (Go 1.21 and later): an ASCII letter is put in upper
  case, any other rune is replaced by \<open>foldRune\<close> of it.  Two names are equal without
  regard to case when their folded names are equal.
\<close>

definition fold_rune :: "unicode_tables \<Rightarrow> int \<Rightarrow> int" where
  "fold_rune U r =
     (if r \<le> 127 then (if 97 \<le> r \<and> r \<le> 122 then r - 32 else r) else foldRune U r)"

definition foldName :: "unicode_tables \<Rightarrow> string \<Rightarrow> string" where
  "foldName U s = concat (map (\<lambda>c. AppendRune (fold_rune U c)) (runes s))"

text \<open>
  The field for an object key: the field of exactly that name if there is one,
  otherwise the first field, in the order of the struct, whose folded name is the folded
  key.
\<close>

definition find_field :: "unicode_tables \<Rightarrow> schema \<Rightarrow> string \<Rightarrow> (string \<times> ftype) option" where
  "find_field U T key =
     (case find (\<lambda>f. fst f = key) T of
        Some f \<Rightarrow> Some f
      | None \<Rightarrow> find (\<lambda>f. foldName U (fst f) = foldName U key) T)"

text \<open>
  One JSON value stored into a field of the given kind.  \<open>null\<close> leaves a field of a
  scalar kind as it is; a value of the wrong kind is an \<open>UnmarshalTypeError\<close>.
\<close>

fun decode_field :: "ftype \<Rightarrow> json \<Rightarrow> gval \<Rightarrow> error + gval" where
  "decode_field TAny j cur = valueInterface j"
| "decode_field t JNull cur = Inr cur"
| "decode_field TBool (JBool b) cur = Inr (VBool b)"
| "decode_field TInt (JNumber n) cur =
     (case number_int n of None \<Rightarrow> Inl UnmarshalTypeError | Some v \<Rightarrow> Inr (VInt v))"
| "decode_field TFloat64 (JNumber n) cur =
     (case number_float64 n of None \<Rightarrow> Inl UnmarshalTypeError | Some f \<Rightarrow> Inr (VFloat f))"
| "decode_field TString (JString s) cur = Inr (VString s)"
| "decode_field t j cur = Inl UnmarshalTypeError"

text \<open>
  The members of the object, in order: a key that matches no field is skipped, a later
  member for the same field replaces the value of an earlier one.  \<open>Unmarshal\<close> reports
  the first error once it is through; the instance is not returned then.
\<close>

fun decode_members :: "unicode_tables \<Rightarrow> schema \<Rightarrow> (string \<times> json) list \<Rightarrow> typed_result \<Rightarrow> error + typed_result" where
  "decode_members U T [] inst = Inr inst"
| "decode_members U T (kv # kvs) inst =
     (case find_field U T (fst kv) of
        None \<Rightarrow> decode_members U T kvs inst
      | Some f \<Rightarrow>
          (case decode_field (snd f) (snd kv) (the (map_of inst (fst f))) of
             Inl e \<Rightarrow> Inl e
           | Inr v \<Rightarrow> decode_members U T kvs (assign inst (fst f) v)))"

text \<open>\<open>json.Unmarshal(jsonData, &result)\<close> with \<open>result\<close> the zero value of \<open>T\<close>.\<close>

fun Unmarshal_struct :: "unicode_tables \<Rightarrow> schema \<Rightarrow> json \<Rightarrow> error + typed_result" where
  "Unmarshal_struct U T (JObject kvs) = decode_members U T kvs (zero_instance T)"
| "Unmarshal_struct U T JNull = Inr (zero_instance T)"
| "Unmarshal_struct U T j = Inl UnmarshalTypeError"

section \<open>Files and directories\<close>

text \<open>
  What the loader sees of the operating system: the result of \<open>os.Executable\<close> and,
  for each path, the result of \<open>os.ReadFile\<close>: the file does not exist, it cannot be
  read, or it has a content, which is a JSON document or no JSON text at all
  (\<open>None\<close>).
\<close>

datatype file_state = NotExist | Unreadable | Content "json option"

record world =
  Executable :: "error + string"
  ReadFile :: "string \<Rightarrow> file_state"

text \<open>
  \<open>filepath.Clean\<close>, \<open>filepath.Join\<close> and \<open>filepath.Dir\<close> on a system whose
  separator is \<open>/\<close> and whose paths have no volume name.  \<open>Clean\<close> goes through the
  elements between the separators: an empty element and \<open>.\<close> are dropped, \<open>..\<close> removes
  the element before it, or is kept at the front of a path that is not rooted, or is
  dropped at the root.
\<close>

fun split_path :: "string \<Rightarrow> string \<Rightarrow> string list" where
  "split_path acc [] = [acc]"
| "split_path acc (c # cs) =
     (if c = CHR ''/'' then acc # split_path [] cs else split_path (acc @ [c]) cs)"

fun clean_elements :: "bool \<Rightarrow> string list \<Rightarrow> string list \<Rightarrow> string list" where
  "clean_elements rooted out [] = out"
| "clean_elements rooted out (e # es) =
     (if e = [] \<or> e = ''.'' then clean_elements rooted out es
      else if e = ''..'' then
        (if out \<noteq> [] \<and> last out \<noteq> ''..'' then clean_elements rooted (butlast out) es
         else if \<not> rooted then clean_elements rooted (out @ [''..'']) es
         else clean_elements rooted out es)
      else clean_elements rooted (out @ [e]) es)"

fun join_elements :: "string list \<Rightarrow> string" where
  "join_elements [] = []"
| "join_elements [e] = e"
| "join_elements (e # es) = e @ ''/'' @ join_elements es"

definition filepath_Clean :: "string \<Rightarrow> string" where
  "filepath_Clean path =
     (if path = [] then ''.''
      else
        let rooted = (hd path = CHR ''/'');
            out = clean_elements rooted [] (split_path [] path)
        in if rooted then ''/'' @ join_elements out
           else if out = [] then ''.''
           else join_elements out)"

definition filepath_Join :: "string \<Rightarrow> string \<Rightarrow> string" where
  "filepath_Join dir name =
     (if dir \<noteq> [] then filepath_Clean (dir @ ''/'' @ name)
      else if name \<noteq> [] then filepath_Clean name
      else [])"

definition filepath_Dir :: "string \<Rightarrow> string" where
  "filepath_Dir path =
     filepath_Clean (rev (dropWhile (\<lambda>c. c \<noteq> CHR ''/'') (rev path)))"

definition getWD :: "world \<Rightarrow> error + string" where
  "getWD w = (case Executable w of Inl err \<Rightarrow> Inl err | Inr ex \<Rightarrow> Inr (filepath_Dir ex))"

definition getConfigDirectory :: "world \<Rightarrow> AppSettings \<Rightarrow> error + string" where
  "getConfigDirectory w a =
     (case withConfigDirectory a of Some dir \<Rightarrow> Inr dir | None \<Rightarrow> getWD w)"

text \<open>\<open>loadConfigFile\<close> (load.go, lines 121-142).\<close>

definition merge :: "overlay \<Rightarrow> (string \<times> gval) list \<Rightarrow> overlay" where
  "merge configMap fileConfig = foldl (\<lambda>m kv. assign m (fst kv) (snd kv)) configMap fileConfig"

definition loadConfigFile :: "world \<Rightarrow> string \<Rightarrow> overlay \<Rightarrow> error + overlay" where
  "loadConfigFile w filePath configMap =
     (case ReadFile w filePath of
        NotExist \<Rightarrow> Inr configMap
      | Unreadable \<Rightarrow> Inl ReadError
      | Content data \<Rightarrow>
          (case Unmarshal_map data of
             Inl err \<Rightarrow> Inl err
           | Inr fileConfig \<Rightarrow> Inr (merge configMap fileConfig)))"

section \<open>Projection and \<open>Load\<close>\<close>

text \<open>\<open>unmarshalToType\<close> (load.go, lines 213-225).\<close>

definition unmarshalToType :: "unicode_tables \<Rightarrow> schema \<Rightarrow> overlay \<Rightarrow> error + typed_result" where
  "unmarshalToType U T configMap =
     (case Marshal (VMap configMap) of
        Inl err \<Rightarrow> Inl err
      | Inr jsonData \<Rightarrow> Unmarshal_struct U T jsonData)"

text \<open>
  \<open>Load\<close> (load.go, lines 35-75).  An error comes back with the stage that failed,
  as the source wraps it with the stage's message.
\<close>

datatype stage =
    GetConfigDirectory
  | LoadBaseConfig
  | LoadEnvConfig
  | LoadEnvVars
  | LoadArgs
  | UnmarshalConfig

definition loadEnvConfig :: "world \<Rightarrow> AppSettings \<Rightarrow> string \<Rightarrow> overlay \<Rightarrow> error + overlay" where
  "loadEnvConfig w a configDir configMap =
     (case withEnvironment a of
        None \<Rightarrow> Inr configMap
      | Some environment \<Rightarrow>
          loadConfigFile w (filepath_Join configDir (''config.'' @ environment @ ''.json''))
            configMap)"

definition Load :: "unicode_tables \<Rightarrow> world \<Rightarrow> schema \<Rightarrow> AppSettings \<Rightarrow> (stage \<times> error) + typed_result" where
  "Load U w T a =
     (case getConfigDirectory w a of
        Inl err \<Rightarrow> Inl (GetConfigDirectory, err)
      | Inr configDir \<Rightarrow>
     (case loadConfigFile w (filepath_Join configDir ''config.json'') [] of
        Inl err \<Rightarrow> Inl (LoadBaseConfig, err)
      | Inr m1 \<Rightarrow>
     (case loadEnvConfig w a configDir m1 of
        Inl err \<Rightarrow> Inl (LoadEnvConfig, err)
      | Inr m2 \<Rightarrow>
     (case loadEnvVars U a m2 of
        Inl err \<Rightarrow> Inl (LoadEnvVars, err)
      | Inr m3 \<Rightarrow>
     (case loadArgs U a m3 of
        Inl err \<Rightarrow> Inl (LoadArgs, err)
      | Inr m4 \<Rightarrow>
     (case unmarshalToType U T m4 of
        Inl err \<Rightarrow> Inl (UnmarshalConfig, err)
      | Inr result \<Rightarrow> Inr result))))))"

section \<open>Keys written by the source overlays\<close>

text \<open>
  The keys that a list of environment entries writes: the lower-cased name of every
  entry of the form \<open>NAME=VALUE\<close>, where \<open>NAME\<close> is the part before the first \<open>=\<close>.
  The keys that a list of arguments writes: the lower-cased rest of every token that
  starts with \<open>--\<close>.
\<close>

definition env_keys :: "unicode_tables \<Rightarrow> string list \<Rightarrow> string set" where
  "env_keys U env =
     {ToLower U name | name v. name @ ''='' @ v \<in> set env \<and> CHR ''='' \<notin> set name}"

definition arg_keys :: "unicode_tables \<Rightarrow> string list \<Rightarrow> string set" where
  "arg_keys U args = {ToLower U x | x. ''--'' @ x \<in> set args}"

section \<open>Example configurations\<close>

text \<open>
  The priority scenario: the base file \<open>{"port": 8080}\<close>, the environment file
  \<open>{"port": 8090}\<close> for the environment \<open>prod\<close>, the variable \<open>PORT=9000\<close> and the
  arguments \<open>--port 3000\<close>.
\<close>

definition priority_files :: "string \<Rightarrow> file_state" where
  "priority_files path =
     (if path = ''/etc/app/config.json''
        then Content (Some (JObject [(''port'', JNumber (IntLit False 8080))]))
      else if path = ''/etc/app/config.prod.json''
        then Content (Some (JObject [(''port'', JNumber (IntLit False 8090))]))
      else NotExist)"

definition priority_world :: world where
  "priority_world = \<lparr>Executable = Inr ''/usr/bin/app'', ReadFile = priority_files\<rparr>"

definition priority_settings :: AppSettings where
  "priority_settings =
     WithArgs (Some [''--port'', ''3000''])
       (WithEnvVars (Some [''PORT=9000''])
         (WithEnvironment ''prod'' (WithConfigDirectory ''/etc/app'' New)))"

text \<open>A list of environment entries and a list of arguments.\<close>

definition env_example :: AppSettings where
  "env_example = WithEnvVars (Some [''PORT=8080'', ''INVALID_VAR'', ''Db_Url=x'']) New"

definition args_example :: AppSettings where
  "args_example = WithArgs (Some [''program'', ''--Port'', ''9000'', ''--verbose'', ''--Debug'']) New"

text \<open>
  A world whose only file is \<open>/etc/app/config.json\<close>, a world without files, and the
  schema of the loader's tests.
\<close>

definition single_file :: "file_state \<Rightarrow> world" where
  "single_file f =
     \<lparr>Executable = Inr ''/usr/bin/app'',
      ReadFile = (\<lambda>path. if path = ''/etc/app/config.json'' then f else NotExist)\<rparr>"

definition no_files :: world where
  "no_files = \<lparr>Executable = Inr ''/usr/bin/app'', ReadFile = (\<lambda>path. NotExist)\<rparr>"

definition TestConfig :: schema where
  "TestConfig =
     [(''databaseURL'', TString), (''port'', TInt), (''debugMode'', TBool),
      (''timeout'', TFloat64), (''name'', TString)]"

text \<open>A configuration with a directory that does not exist, an environment, and nothing else.\<close>

definition no_sources_settings :: AppSettings where
  "no_sources_settings =
     WithEnvironment ''dev'' (WithConfigDirectory ''/nonexistent/path/that/does/not/exist'' New)"

text \<open>
  A world whose base file is \<open>{"port": 8080}\<close> and whose file for the environment
  \<open>dev\<close> is no JSON text.
\<close>

definition invalid_env_files :: "string \<Rightarrow> file_state" where
  "invalid_env_files path =
     (if path = ''/etc/app/config.json''
        then Content (Some (JObject [(''port'', JNumber (IntLit False 8080))]))
      else if path = ''/etc/app/config.dev.json'' then Content None
      else NotExist)"

definition invalid_env_world :: world where
  "invalid_env_world = \<lparr>Executable = Inr ''/usr/bin/app'', ReadFile = invalid_env_files\<rparr>"

text \<open>
  Case tables for the examples: the tables of package \<open>unicode\<close> on the runes up to
  \<open>U+00FF\<close> (the letters \<open>U+00C0\<close> to \<open>U+00DE\<close>, without the sign \<open>U+00D7\<close>, are the
  upper-case forms of the letters 32 places above them).  The runes above \<open>U+00FF\<close>, which
  no example uses, are left as they are.
\<close>

definition example_tables :: unicode_tables where
  "example_tables =
     \<lparr>ToLowerRune = (\<lambda>r. if (192 \<le> r \<and> r \<le> 214) \<or> (216 \<le> r \<and> r \<le> 222) then r + 32 else r),
      foldRune = (\<lambda>r. if (224 \<le> r \<and> r \<le> 246) \<or> (248 \<le> r \<and> r \<le> 254) then r - 32 else r)\<rparr>"

text \<open>
  The names \<open>\<Eacute>COLE\<close> and \<open>\<eacute>cole\<close> in UTF-8: \<open>\<Eacute>\<close> is the rune \<open>U+00C9\<close>, the bytes
  \<open>C3 89\<close>, and \<open>\<eacute>\<close> is \<open>U+00E9\<close>, the bytes \<open>C3 A9\<close>.
\<close>

definition ecole_upper :: string where
  "ecole_upper = [CHR 0xC3, CHR 0x89] @ ''COLE''"

definition ecole_lower :: string where
  "ecole_lower = [CHR 0xC3, CHR 0xA9] @ ''cole''"

text \<open>A schema with two fields whose tags differ in case only, and a third field.\<close>

definition CaseConfig :: schema where
  "CaseConfig = [(''DebugMode'', TBool), (''debugMode'', TBool), (''port'', TInt)]"

section \<open>Properties\<close>

subsection \<open>Assignment to a map\<close>

lemma map_of_assign: "map_of (assign m k v) = (map_of m)(k \<mapsto> v)"
  by (induction m) (auto simp: fun_eq_iff)

lemma keys_dom: "keys m = dom (map_of m)"
  by (simp add: keys_def dom_map_of_conv_image_fst)

lemma keys_assign: "keys (assign m k v) = insert k (keys m)"
  by (simp add: keys_dom map_of_assign)

lemma set_assign: "set (assign m k v) \<subseteq> insert (k, v) (set m)"
  by (induction m) (auto split: if_splits)

subsection \<open>The environment-variable overlay\<close>

lemma HasPrefix_iff: "HasPrefix s p \<longleftrightarrow> prefix p s"
  by (induction s p rule: HasPrefix.induct) auto

lemma SplitN_eq2_entry:
  "CHR ''='' \<notin> set name \<Longrightarrow> SplitN_eq2 (name @ CHR ''='' # v) = [name, v]"
  by (simp add: SplitN_eq2_def takeWhile_append dropWhile_append
      takeWhile_eq_all_conv[THEN iffD2] dropWhile_eq_Nil_conv[THEN iffD2])

lemma SplitN_eq2_none: "CHR ''='' \<notin> set e \<Longrightarrow> SplitN_eq2 e = [e]"
  by (simp add: SplitN_eq2_def)

lemma envVar_step_entry:
  "CHR ''='' \<notin> set name \<Longrightarrow>
     envVar_step U m (name @ CHR ''='' # v) = assign m (ToLower U name) (parseValue v)"
  by (simp add: envVar_step_def SplitN_eq2_entry)

lemma envVar_step_none: "CHR ''='' \<notin> set e \<Longrightarrow> envVar_step U m e = m"
  by (simp add: envVar_step_def SplitN_eq2_none)

lemma entry_cases:
  obtains (sep) name v where "e = name @ CHR ''='' # v" "CHR ''='' \<notin> set name"
        | (nosep) "CHR ''='' \<notin> set e"
proof (cases "CHR ''='' \<in> set e")
  case True
  then obtain name v where "e = name @ CHR ''='' # v" "CHR ''='' \<notin> set name"
    by (meson split_list_first)
  then show ?thesis using sep by simp
next
  case False then show ?thesis using nosep by simp
qed

lemma entry_unique:
  "name @ CHR ''='' # v = name' @ CHR ''='' # v' \<Longrightarrow> CHR ''='' \<notin> set name \<Longrightarrow>
   CHR ''='' \<notin> set name' \<Longrightarrow> name = name' \<and> v = v'"
  by (metis SplitN_eq2_entry list.inject)

lemma env_keys_Nil: "env_keys U [] = {}"
  by (simp add: env_keys_def)

lemma env_keys_entry:
  assumes "CHR ''='' \<notin> set name"
  shows "env_keys U [name @ CHR ''='' # v] = {ToLower U name}"
proof -
  have "\<And>n w. n @ CHR ''='' # w = name @ CHR ''='' # v \<Longrightarrow> CHR ''='' \<notin> set n \<Longrightarrow> n = name"
    using assms entry_unique by blast
  then show ?thesis using assms by (auto simp: env_keys_def)
qed

lemma env_keys_none: "CHR ''='' \<notin> set e \<Longrightarrow> env_keys U [e] = {}"
  by (auto simp: env_keys_def)

lemma keys_envVar_step: "keys (envVar_step U m e) = keys m \<union> env_keys U [e]"
proof (cases e rule: entry_cases)
  case (sep name v)
  then show ?thesis by (simp add: envVar_step_entry keys_assign env_keys_entry)
next
  case nosep
  then show ?thesis by (simp add: envVar_step_none env_keys_none)
qed

lemma env_keys_Cons: "env_keys U (e # env) = env_keys U [e] \<union> env_keys U env"
  by (auto simp: env_keys_def)

lemma keys_foldl_envVar_step: "keys (foldl (envVar_step U) m env) = keys m \<union> env_keys U env"
proof (induction env arbitrary: m)
  case Nil then show ?case by (simp add: env_keys_Nil)
next
  case (Cons e env)
  show ?case unfolding foldl_Cons Cons.IH keys_envVar_step env_keys_Cons[of _ e env] by auto
qed

lemma envVar_step_other: "k \<notin> env_keys U [e] \<Longrightarrow> map_of (envVar_step U m e) k = map_of m k"
proof (cases e rule: entry_cases)
  case (sep name v)
  assume "k \<notin> env_keys U [e]"
  with sep have "ToLower U name \<noteq> k" by (simp add: env_keys_entry)
  with sep show ?thesis by (simp add: envVar_step_entry map_of_assign)
next
  case nosep
  then show ?thesis by (simp add: envVar_step_none)
qed

lemma foldl_envVar_step_other:
  "k \<notin> env_keys U env \<Longrightarrow> map_of (foldl (envVar_step U) m env) k = map_of m k"
proof (induction env arbitrary: m)
  case Nil then show ?case by simp
next
  case (Cons e env)
  then show ?case using env_keys_Cons[of _ e env] by (simp add: envVar_step_other)
qed

lemma foldl_envVar_step_last:
  assumes "CHR ''='' \<notin> set name" "ToLower U name \<notin> env_keys U post"
  shows "map_of (foldl (envVar_step U) m (pre @ [name @ ''='' @ v] @ post)) (ToLower U name) =
           Some (parseValue v)"
  using assms by (simp add: foldl_envVar_step_other envVar_step_entry map_of_assign)

lemma foldl_envVar_step_skip:
  "CHR ''='' \<notin> set e \<Longrightarrow>
     foldl (envVar_step U) m (pre @ [e] @ post) = foldl (envVar_step U) m (pre @ post)"
  by (simp add: envVar_step_none)

lemma lower_byte_other: "c \<notin> set ascii_upper \<Longrightarrow> lower_byte c = c"
  by (auto simp: lower_byte_def map_of_eq_None_iff[THEN iffD2] ascii_upper_def ascii_lower_def split: option.splits)

lemma DecodeRune_ascii: "of_char c < (128 :: int) \<Longrightarrow> DecodeRune (of_char c) cs = (of_char c, 1)"
  by (simp add: DecodeRune_def)

lemma runes_ascii_Cons: "of_char c < (128 :: int) \<Longrightarrow> runes (c # cs) = of_char c # runes cs"
  by (simp add: runes.simps(2) DecodeRune_ascii)

lemma runes_ascii: "\<forall>c\<in>set s. of_char c < (128 :: int) \<Longrightarrow> runes s = map of_char s"
  by (induction s) (simp_all add: runes_ascii_Cons)

lemma lead_class_size: "lead_class b = Some (sz, lo, hi) \<Longrightarrow> 2 \<le> sz \<and> 128 \<le> lo"
  by (auto simp: lead_class_def split: if_splits)

lemma DecodeRune_width: "1 \<le> snd (DecodeRune b0 xs) \<and> snd (DecodeRune b0 xs) - 1 \<le> length xs"
  by (auto simp: DecodeRune_def Let_def dest: lead_class_size split: option.splits)

lemma DecodeRune_append_ascii:
  assumes "of_char c < (128 :: int)"
  shows "DecodeRune b0 (xs @ c # ys) = DecodeRune b0 xs"
proof (cases "lead_class b0")
  case None then show ?thesis by (simp add: DecodeRune_def)
next
  case (Some t)
  obtain sz lo hi where t: "t = (sz, lo, hi)" by (cases t)
  from Some t have lo: "128 \<le> lo" and sz: "sz = 2 \<or> sz = 3 \<or> sz = 4"
    by (auto simp: lead_class_def split: if_splits)
  consider (long) "sz - 1 \<le> length xs"
    | (e0) "xs = []"
    | (e1) x1 where "xs = [x1]" "sz = 3 \<or> sz = 4"
    | (e2) x1 x2 where "xs = [x1, x2]" "sz = 4"
  proof (cases "sz - 1 \<le> length xs")
    case True then show ?thesis using long by simp
  next
    case False
    with sz have "length xs = 0 \<or> (length xs = 1 \<and> (sz = 3 \<or> sz = 4)) \<or> (length xs = 2 \<and> sz = 4)"
      by arith
    then show ?thesis using e0 e1 e2
      by (metis length_0_conv length_Suc_conv One_nat_def Suc_1)
  qed
  then show ?thesis
  proof cases
    case long then show ?thesis using Some t by (simp add: DecodeRune_def)
  next
    case e0 then show ?thesis using Some t assms lo sz by (auto simp: DecodeRune_def Let_def)
  next
    case e1 then show ?thesis using Some t assms lo by (auto simp: DecodeRune_def Let_def)
  next
    case e2 then show ?thesis using Some t assms lo by (auto simp: DecodeRune_def Let_def)
  qed
qed

lemma runes_append_ascii:
  "of_char c < (128 :: int) \<Longrightarrow> runes (xs @ c # ys) = runes xs @ of_char c # runes ys"
proof (induction xs rule: runes.induct)
  case 1 then show ?case by (simp add: runes_ascii_Cons)
next
  case (2 x xs)
  obtain r n where d: "DecodeRune (of_char x) xs = (r, n)" by (cases "DecodeRune (of_char x) xs")
  from DecodeRune_width[of "of_char x" xs] d have n: "n - 1 \<le> length xs" by simp
  from 2(1)[OF d[symmetric] 2(2)]
  have IH: "runes (drop (n - 1) xs @ c # ys) = runes (drop (n - 1) xs) @ of_char c # runes ys" .
  show ?case
    using d n IH 2(2) by (simp add: runes.simps(2) DecodeRune_append_ascii)
qed

lemma ToLower_append_ascii:
  "of_char c < (128 :: int) \<Longrightarrow> ToLower U (xs @ c # ys) = ToLower U xs @ ToLower U [c] @ ToLower U ys"
  by (simp add: ToLower_def runes_append_ascii runes_ascii_Cons)

lemma upper_code:
  assumes "65 \<le> (of_char c :: int)" "(of_char c :: int) \<le> 90"
  shows "c \<in> set ascii_upper"
proof -
  define n where "n = (of_char c :: int)"
  have c: "c = char_of n" by (simp add: n_def)
  from assms have "n = 65 \<or> n = 66 \<or> n = 67 \<or> n = 68 \<or> n = 69 \<or> n = 70 \<or> n = 71 \<or> n = 72 \<or> n = 73 \<or> n = 74 \<or> n = 75 \<or> n = 76 \<or> n = 77 \<or> n = 78 \<or> n = 79 \<or> n = 80 \<or> n = 81 \<or> n = 82 \<or> n = 83 \<or> n = 84 \<or> n = 85 \<or> n = 86 \<or> n = 87 \<or> n = 88 \<or> n = 89 \<or> n = 90"
    unfolding n_def by presburger
  moreover have inj: "\<And>d. n = of_char d \<Longrightarrow> c = d"
    unfolding n_def by (simp only: of_char_eq_iff)
  ultimately show ?thesis unfolding ascii_upper_def
    by (elim disjE) (simp_all add: inj)
qed

lemma of_char_nonneg: "0 \<le> (of_char c :: int)"
  by (metis of_nat_of_char of_nat_0_le_iff)

lemma ToLower_ascii:
  assumes "\<forall>c\<in>set s. of_char c < (128 :: int)"
  shows "ToLower U s =
           map (\<lambda>c. if 65 \<le> (of_char c :: int) \<and> (of_char c :: int) \<le> 90
                     then char_of (of_char c + 32 :: int) else c) s"
  using assms
proof (induction s)
  case Nil show ?case by (simp add: ToLower_def)
next
  case (Cons c s)
  then have c: "of_char c < (128 :: int)" by simp
  have "ToLower U (c # s) = ToLower U [c] @ ToLower U s"
    using c by (simp add: ToLower_def runes_ascii_Cons)
  moreover have "ToLower U [c] =
      [if 65 \<le> (of_char c :: int) \<and> (of_char c :: int) \<le> 90 then char_of (of_char c + 32 :: int) else c]"
    using c of_char_nonneg[of c]
    by (simp add: ToLower_def runes_ascii_Cons unicode_ToLower_def AppendRune_def Let_def)
  ultimately show ?case using Cons by simp
qed

lemma ToLower_ascii_nth:
  assumes "\<forall>c\<in>set s. of_char c < (128 :: int)"
  shows "length (ToLower U s) = length s \<and>
         (\<forall>i < length s. s ! i \<notin> set ascii_upper \<longrightarrow> ToLower U s ! i = s ! i)"
  using upper_code by (auto simp: ToLower_ascii[OF assms])


lemma upper_is_code: "c \<in> set ascii_upper \<Longrightarrow> 65 \<le> (of_char c :: int) \<and> (of_char c :: int) \<le> 90"
  by (auto simp: ascii_upper_def)

lemma lower_byte_upper_code:
  "list_all (\<lambda>c. lower_byte c = char_of (of_char c + 32 :: int)) ascii_upper"
  by code_simp

lemma lower_byte_code:
  "lower_byte c =
     (if 65 \<le> (of_char c :: int) \<and> (of_char c :: int) \<le> 90 then char_of (of_char c + 32 :: int) else c)"
proof (cases "c \<in> set ascii_upper")
  case True
  then show ?thesis using lower_byte_upper_code upper_is_code[of c]
    by (simp add: list_all_iff)
next
  case False
  then show ?thesis using upper_code[of c] by (auto simp: lower_byte_other)
qed

lemma ToLower_ascii_bytes:
  "\<forall>c\<in>set s. of_char c < (128 :: int) \<Longrightarrow> ToLower U s = map lower_byte s"
  by (simp add: ToLower_ascii lower_byte_code)

lemma ToLower_separator:
  "ToLower U (x @ ''_'' @ y) = ToLower U x @ ''_'' @ ToLower U y \<and>
   ToLower U (x @ ''-'' @ y) = ToLower U x @ ''-'' @ ToLower U y"
proof -
  have u: "ToLower U ''_'' = ''_''" by code_simp
  have h: "ToLower U ''-'' = ''-''" by code_simp
  have "of_char (CHR ''_'') < (128 :: int)" "of_char (CHR ''-'') < (128 :: int)" by simp_all
  from ToLower_append_ascii[OF this(1), of U x y] ToLower_append_ascii[OF this(2), of U x y]
  show ?thesis by (simp add: u h)
qed

text \<open>
  C7.  \<open>loadEnvVars\<close> never returns an error.  The keys it adds are exactly the
  lower-cased names of the entries of the form \<open>NAME=VALUE\<close>, every other key keeps
  its value, and the key of an entry holds the inferred value of that entry unless a
  later entry writes the same key: the entry is stored into the overlay that the
  entries before it have built, and the entries after it run on the result.  An entry
  without \<open>=\<close> contributes nothing: the result is the one of the list without it.
  Lower-casing a name of ASCII bytes maps \<open>lower_byte\<close> over it: the length is kept, and
  so is every byte that is not an upper-case letter.  Lower-casing any name, ASCII or
  not, keeps every underscore and every hyphen where it is: the name is lower-cased
  piece by piece between them.  So \<open>DATABASE_URL\<close> becomes \<open>database_url\<close>.
\<close>

theorem loadEnvVars_entries:
  "(\<exists>m'. loadEnvVars U a m = Inr m') \<and>
   (withEnvVars a = None \<longrightarrow> loadEnvVars U a m = Inr m) \<and>
   (withEnvVars a = Some env \<longrightarrow>
      (\<exists>m'. loadEnvVars U a m = Inr m' \<and>
         keys m' = keys m \<union> env_keys U env \<and>
         (\<forall>k. k \<notin> env_keys U env \<longrightarrow> map_of m' k = map_of m k) \<and>
         (\<forall>pre name v post.
            env = pre @ [name @ ''='' @ v] @ post \<and> CHR ''='' \<notin> set name \<and>
            ToLower U name \<notin> env_keys U post \<longrightarrow>
            map_of m' (ToLower U name) = Some (parseValue v)) \<and>
         (\<forall>pre e post.
            env = pre @ [e] @ post \<and> CHR ''='' \<notin> set e \<longrightarrow>
            loadEnvVars U (a\<lparr>withEnvVars := Some (pre @ post)\<rparr>) m = Inr m'))) \<and>
   (list_all (\<lambda>c. of_char c < (128 :: int)) s \<longrightarrow>
      ToLower U s = map lower_byte s \<and> length (ToLower U s) = length s \<and>
      (\<forall>i < length s. s ! i \<notin> set ascii_upper \<longrightarrow> ToLower U s ! i = s ! i)) \<and>
   ToLower U (x @ ''_'' @ y) = ToLower U x @ ''_'' @ ToLower U y \<and>
   ToLower U (x @ ''-'' @ y) = ToLower U x @ ''-'' @ ToLower U y \<and>
   ToLower U ''DATABASE_URL'' = ''database_url'' \<and>
   (withEnvVars a = Some (before @ [NAME @ ''='' @ VALUE] @ after) \<and> CHR ''='' \<notin> set NAME \<longrightarrow>
      (\<exists>m0. loadEnvVars U a m =
         Inr (foldl (envVar_step U) (assign m0 (ToLower U NAME) (parseValue VALUE)) after)))"
proof -
  have total: "\<exists>m'. loadEnvVars U a m = Inr m'"
    by (simp add: loadEnvVars_def split: option.splits)
  have nil: "withEnvVars a = None \<longrightarrow> loadEnvVars U a m = Inr m"
    by (simp add: loadEnvVars_def)
  have some: "withEnvVars a = Some env \<longrightarrow>
      (\<exists>m'. loadEnvVars U a m = Inr m' \<and>
         keys m' = keys m \<union> env_keys U env \<and>
         (\<forall>k. k \<notin> env_keys U env \<longrightarrow> map_of m' k = map_of m k) \<and>
         (\<forall>pre name v post.
            env = pre @ [name @ ''='' @ v] @ post \<and> CHR ''='' \<notin> set name \<and>
            ToLower U name \<notin> env_keys U post \<longrightarrow>
            map_of m' (ToLower U name) = Some (parseValue v)) \<and>
         (\<forall>pre e post.
            env = pre @ [e] @ post \<and> CHR ''='' \<notin> set e \<longrightarrow>
            loadEnvVars U (a\<lparr>withEnvVars := Some (pre @ post)\<rparr>) m = Inr m'))"
  proof
    assume env: "withEnvVars a = Some env"
    let ?m' = "foldl (envVar_step U) m env"
    have 1: "loadEnvVars U a m = Inr ?m'" using env by (simp add: loadEnvVars_def)
    have 2: "keys ?m' = keys m \<union> env_keys U env" by (rule keys_foldl_envVar_step)
    have 3: "\<forall>k. k \<notin> env_keys U env \<longrightarrow> map_of ?m' k = map_of m k"
      by (simp add: foldl_envVar_step_other)
    have 4: "\<forall>pre name v post.
            env = pre @ [name @ ''='' @ v] @ post \<and> CHR ''='' \<notin> set name \<and>
            ToLower U name \<notin> env_keys U post \<longrightarrow>
            map_of ?m' (ToLower U name) = Some (parseValue v)"
      using foldl_envVar_step_last by blast
    have 5: "\<forall>pre e post.
            env = pre @ [e] @ post \<and> CHR ''='' \<notin> set e \<longrightarrow>
            loadEnvVars U (a\<lparr>withEnvVars := Some (pre @ post)\<rparr>) m = Inr ?m'"
      using foldl_envVar_step_skip by (auto simp: loadEnvVars_def)
    from 1 2 3 4 5 show "\<exists>m'. loadEnvVars U a m = Inr m' \<and>
         keys m' = keys m \<union> env_keys U env \<and>
         (\<forall>k. k \<notin> env_keys U env \<longrightarrow> map_of m' k = map_of m k) \<and>
         (\<forall>pre name v post.
            env = pre @ [name @ ''='' @ v] @ post \<and> CHR ''='' \<notin> set name \<and>
            ToLower U name \<notin> env_keys U post \<longrightarrow>
            map_of m' (ToLower U name) = Some (parseValue v)) \<and>
         (\<forall>pre e post.
            env = pre @ [e] @ post \<and> CHR ''='' \<notin> set e \<longrightarrow>
            loadEnvVars U (a\<lparr>withEnvVars := Some (pre @ post)\<rparr>) m = Inr m')"
      by blast
  qed
  have ascii: "list_all (\<lambda>c. of_char c < (128 :: int)) s \<longrightarrow>
      ToLower U s = map lower_byte s \<and> length (ToLower U s) = length s \<and>
      (\<forall>i < length s. s ! i \<notin> set ascii_upper \<longrightarrow> ToLower U s ! i = s ! i)"
    using ToLower_ascii_bytes[of s U] ToLower_ascii_nth[of s U] unfolding list_all_iff by blast
  have under: "ToLower U (x @ ''_'' @ y) = ToLower U x @ ''_'' @ ToLower U y"
    using ToLower_separator[of U x y] by (rule conjunct1)
  have hyphen: "ToLower U (x @ ''-'' @ y) = ToLower U x @ ''-'' @ ToLower U y"
    using ToLower_separator[of U x y] by (rule conjunct2)
  have ex: "ToLower U ''DATABASE_URL'' = ''database_url''" by code_simp
  have store: "withEnvVars a = Some (before @ [NAME @ ''='' @ VALUE] @ after) \<and>
      CHR ''='' \<notin> set NAME \<longrightarrow>
      (\<exists>m0. loadEnvVars U a m =
         Inr (foldl (envVar_step U) (assign m0 (ToLower U NAME) (parseValue VALUE)) after))"
    by (auto simp: loadEnvVars_def envVar_step_entry)
  from total nil some ascii under hyphen ex store show ?thesis by (intro conjI)
qed

theorem loadEnvVars_entries_witness:
  "withEnvVars env_example = Some ([] @ [''PORT'' @ ''='' @ ''8080''] @ [''INVALID_VAR'', ''Db_Url=x'']) \<and>
   CHR ''='' \<notin> set ''PORT'' \<and>
   ToLower example_tables ''PORT'' \<notin> env_keys example_tables [''INVALID_VAR'', ''Db_Url=x''] \<and>
   CHR ''='' \<notin> set ''INVALID_VAR'' \<and>
   (\<exists>m'. loadEnvVars example_tables env_example [] = Inr m' \<and>
         map_of m' ''port'' = Some (VInt 8080) \<and>
         keys m' = {''port'', ''db_url''} \<and>
         loadEnvVars example_tables (env_example\<lparr>withEnvVars := Some [''PORT=8080'', ''Db_Url=x'']\<rparr>) [] = Inr m') \<and>
   list_all (\<lambda>c. of_char c < (128 :: int)) ''A_b'' \<and>
   ToLower example_tables ''A_b'' = map lower_byte ''A_b'' \<and>
   (1 :: nat) < length ''A_b'' \<and> ''A_b'' ! 1 \<notin> set ascii_upper \<and> ToLower example_tables ''A_b'' ! 1 = CHR ''_'' \<and>
   (\<exists>m0. loadEnvVars example_tables env_example [] =
      Inr (foldl (envVar_step example_tables) (assign m0 (ToLower example_tables ''PORT'') (parseValue ''8080''))
             [''INVALID_VAR'', ''Db_Url=x'']))"
proof -
  let ?env = "[''PORT=8080'', ''INVALID_VAR'', ''Db_Url=x'']"
  have e: "withEnvVars env_example = Some ?env"
    by (simp add: env_example_def WithEnvVars_def New_def)
  have n1: "CHR ''='' \<notin> set ''PORT''" by simp
  have n2: "CHR ''='' \<notin> set ''INVALID_VAR''" by simp
  have low: "ToLower example_tables ''PORT'' = ''port''" by code_simp
  have low2: "ToLower example_tables ''Db_Url'' = ''db_url''" by code_simp
  have asc: "list_all (\<lambda>c. of_char c < (128 :: int)) ''A_b''" by simp
  have k2: "env_keys example_tables [''INVALID_VAR'', ''Db_Url=x''] = {''db_url''}"
    using env_keys_Cons[of example_tables "''INVALID_VAR''" "[''Db_Url=x'']"]
      env_keys_none[OF n2, of example_tables]
      env_keys_entry[of "''Db_Url''" example_tables "''x''"] low2
    by simp
  have k1: "env_keys example_tables ?env = {''port'', ''db_url''}"
    using env_keys_Cons[of example_tables "''PORT=8080''" "[''INVALID_VAR'', ''Db_Url=x'']"]
      env_keys_entry[of "''PORT''" example_tables "''8080''"] k2 low
    by (simp add: insert_commute)
  have pv: "parseValue ''8080'' = VInt 8080" by code_simp
  have i: "''A_b'' ! 1 \<notin> set ascii_upper" by (simp add: ascii_upper_def)
  note T = loadEnvVars_entries [where U = example_tables and a = env_example and m = "[]"
      and env = ?env and s = "''A_b''"]
  from T[THEN conjunct2, THEN conjunct2, THEN conjunct1, THEN mp, OF e]
  obtain m' where all: "loadEnvVars example_tables env_example [] = Inr m' \<and>
      keys m' = keys ([] :: overlay) \<union> env_keys example_tables ?env \<and>
      (\<forall>k. k \<notin> env_keys example_tables ?env \<longrightarrow> map_of m' k = map_of ([] :: overlay) k) \<and>
      (\<forall>pre name v post.
            ?env = pre @ [name @ ''='' @ v] @ post \<and> CHR ''='' \<notin> set name \<and>
            ToLower example_tables name \<notin> env_keys example_tables post \<longrightarrow>
            map_of m' (ToLower example_tables name) = Some (parseValue v)) \<and>
      (\<forall>pre e post.
            ?env = pre @ [e] @ post \<and> CHR ''='' \<notin> set e \<longrightarrow>
            loadEnvVars example_tables (env_example\<lparr>withEnvVars := Some (pre @ post)\<rparr>) [] = Inr m')"
    by (erule exE)
  note m' = all[THEN conjunct1] all[THEN conjunct2, THEN conjunct1]
    all[THEN conjunct2, THEN conjunct2, THEN conjunct2, THEN conjunct1]
    all[THEN conjunct2, THEN conjunct2, THEN conjunct2, THEN conjunct2]
  note A = T[THEN conjunct2, THEN conjunct2, THEN conjunct2, THEN conjunct1, THEN mp, OF asc]
  have bytes: "ToLower example_tables ''A_b'' = map lower_byte ''A_b''"
    using A by (rule conjunct1)
  have nth: "\<forall>i < length ''A_b''. ''A_b'' ! i \<notin> set ascii_upper \<longrightarrow> ToLower example_tables ''A_b'' ! i = ''A_b'' ! i"
    using A[THEN conjunct2, THEN conjunct2] .
  have "map_of m' (ToLower example_tables ''PORT'') = Some (parseValue ''8080'')"
    using m'(3)[rule_format, of "[]" "''PORT''" "''8080''" "[''INVALID_VAR'', ''Db_Url=x'']"]
      n1 k2 low by simp
  then have a: "map_of m' ''port'' = Some (VInt 8080)" by (simp only: low pv)
  have b: "keys m' = {''port'', ''db_url''}" using m'(2) k1 by (simp add: keys_def)
  have c: "loadEnvVars example_tables (env_example\<lparr>withEnvVars := Some [''PORT=8080'', ''Db_Url=x'']\<rparr>) [] = Inr m'"
    using m'(4)[rule_format, of "[''PORT=8080'']" "''INVALID_VAR''" "[''Db_Url=x'']"] n2 by simp
  have d: "ToLower example_tables ''A_b'' ! 1 = CHR ''_''"
    using nth[rule_format, of 1] i by simp
  have k: "ToLower example_tables ''PORT'' \<notin> env_keys example_tables [''INVALID_VAR'', ''Db_Url=x'']"
    using k2 low by simp
  have st: "\<exists>m0. loadEnvVars example_tables env_example [] =
      Inr (foldl (envVar_step example_tables) (assign m0 (ToLower example_tables ''PORT'') (parseValue ''8080''))
             [''INVALID_VAR'', ''Db_Url=x''])"
    using loadEnvVars_entries [where U = example_tables and a = env_example and m = "[]"
        and before = "[]" and NAME = "''PORT''" and VALUE = "''8080''"
        and after = "[''INVALID_VAR'', ''Db_Url=x'']",
        THEN conjunct2, THEN conjunct2, THEN conjunct2, THEN conjunct2, THEN conjunct2,
        THEN conjunct2, THEN conjunct2] e n1
    by simp
  have one: "(1 :: nat) < length ''A_b''" by simp
  have ex: "\<exists>m'. loadEnvVars example_tables env_example [] = Inr m' \<and>
         map_of m' ''port'' = Some (VInt 8080) \<and>
         keys m' = {''port'', ''db_url''} \<and>
         loadEnvVars example_tables (env_example\<lparr>withEnvVars := Some [''PORT=8080'', ''Db_Url=x'']\<rparr>) [] = Inr m'"
    using m'(1) a b c by blast
  have e': "withEnvVars env_example = Some ([] @ [''PORT'' @ ''='' @ ''8080''] @ [''INVALID_VAR'', ''Db_Url=x''])"
    using e by simp
  from e' n1 k n2 ex asc bytes one i d st show ?thesis by (intro conjI)
qed

subsection \<open>The argument overlay\<close>

lemma flag_cases:
  obtains (flag) x where "t = CHR ''-'' # CHR ''-'' # x" "HasPrefix t ''--''"
        | (inert) "\<not> HasPrefix t ''--''" "\<And>x. t \<noteq> CHR ''-'' # CHR ''-'' # x"
proof (cases "HasPrefix t ''--''")
  case True
  then obtain x where "t = ''--'' @ x" by (auto simp: HasPrefix_iff prefix_def)
  then show ?thesis using flag True by simp
next
  case False
  then have "\<And>x. t \<noteq> CHR ''-'' # CHR ''-'' # x" by auto
  with False show ?thesis using inert by blast
qed

lemma TrimPrefix_flag: "TrimPrefix (CHR ''-'' # CHR ''-'' # x) ''--'' = x"
  by (simp add: TrimPrefix_def)

lemma arg_keys_Nil: "arg_keys U [] = {}"
  by (simp add: arg_keys_def)

lemma arg_keys_Cons: "arg_keys U (t # ts) = arg_keys U [t] \<union> arg_keys U ts"
  by (auto simp: arg_keys_def)

lemma arg_keys_flag: "arg_keys U [CHR ''-'' # CHR ''-'' # x] = {ToLower U x}"
  by (auto simp: arg_keys_def)

lemma arg_keys_inert: "\<not> HasPrefix t ''--'' \<Longrightarrow> arg_keys U [t] = {}"
  by (auto simp: arg_keys_def HasPrefix_iff)

text \<open>One iteration: the rest of the list is scanned with the map after at most one write.\<close>

lemma loadArgs_loop_flag:
  "loadArgs_loop U ((CHR ''-'' # CHR ''-'' # x) # rest) m =
     loadArgs_loop U rest
       (assign m (ToLower U x)
          (if rest \<noteq> [] \<and> \<not> HasPrefix (hd rest) ''--'' then parseValue (hd rest) else VBool True))"
  by (subst loadArgs_loop.simps(2))
    (cases rest; simp add: TrimPrefix_def Let_def del: loadArgs_loop.simps)

lemma loadArgs_loop_inert:
  "\<not> HasPrefix t ''--'' \<Longrightarrow> loadArgs_loop U (t # rest) m = loadArgs_loop U rest m"
  by (subst loadArgs_loop.simps(2)) (simp del: loadArgs_loop.simps)

lemma keys_loadArgs_loop: "keys (loadArgs_loop U ts m) = keys m \<union> arg_keys U ts"
proof (induction ts arbitrary: m)
  case Nil then show ?case by (simp add: arg_keys_Nil)
next
  case (Cons t ts)
  show ?case
  proof (cases t rule: flag_cases)
    case (flag x)
    then show ?thesis
      unfolding flag(1) loadArgs_loop_flag Cons.IH arg_keys_Cons[of _ _ ts] arg_keys_flag keys_assign
      by auto
  next
    case inert
    then show ?thesis
      unfolding loadArgs_loop_inert[OF inert(1)] Cons.IH arg_keys_Cons[of _ t ts]
      by (simp add: arg_keys_inert)
  qed
qed

lemma loadArgs_loop_other:
  "k \<notin> arg_keys U ts \<Longrightarrow> map_of (loadArgs_loop U ts m) k = map_of m k"
proof (induction ts arbitrary: m)
  case Nil then show ?case by simp
next
  case (Cons t ts)
  from Cons.prems have k: "k \<notin> arg_keys U [t]" "k \<notin> arg_keys U ts"
    using arg_keys_Cons[of _ t ts] by auto
  show ?case
  proof (cases t rule: flag_cases)
    case (flag x)
    with k have "ToLower U x \<noteq> k" by (simp add: arg_keys_flag)
    then show ?thesis
      unfolding flag(1) loadArgs_loop_flag Cons.IH[OF k(2)] by (simp add: map_of_assign)
  next
    case inert
    then show ?thesis
      unfolding loadArgs_loop_inert[OF inert(1)] Cons.IH[OF k(2)] by simp
  qed
qed

lemma loadArgs_loop_prefix:
  "ts \<noteq> [] \<Longrightarrow> \<exists>m'. loadArgs_loop U (pre @ ts) m = loadArgs_loop U ts m'"
proof (induction pre arbitrary: m)
  case Nil then show ?case by auto
next
  case (Cons t pre)
  show ?case
  proof (cases t rule: flag_cases)
    case (flag x)
    then show ?thesis
      using Cons.IH[OF Cons.prems] unfolding flag(1) append_Cons loadArgs_loop_flag by blast
  next
    case inert
    then show ?thesis
      using Cons.IH[OF Cons.prems] unfolding append_Cons loadArgs_loop_inert[OF inert(1)] by blast
  qed
qed

lemma loadArgs_loop_value:
  assumes "\<not> HasPrefix y ''--''" "ToLower U x \<notin> arg_keys U post"
  shows "map_of (loadArgs_loop U (pre @ [''--'' @ x, y] @ post) m) (ToLower U x) = Some (parseValue y)"
proof -
  obtain m' where
    "loadArgs_loop U (pre @ ((CHR ''-'' # CHR ''-'' # x) # y # post)) m =
       loadArgs_loop U ((CHR ''-'' # CHR ''-'' # x) # y # post) m'"
    using loadArgs_loop_prefix[of "(CHR ''-'' # CHR ''-'' # x) # y # post" _ pre m] by auto
  moreover have "ToLower U x \<notin> arg_keys U (y # post)"
    using assms arg_keys_Cons[of _ y post] by (simp add: arg_keys_inert)
  ultimately show ?thesis
    using assms(1) by (simp add: loadArgs_loop_flag loadArgs_loop_other map_of_assign
        del: loadArgs_loop.simps)
qed

lemma loadArgs_loop_bool:
  assumes "post = [] \<or> HasPrefix (hd post) ''--''" "ToLower U x \<notin> arg_keys U post"
  shows "map_of (loadArgs_loop U (pre @ [''--'' @ x] @ post) m) (ToLower U x) = Some (VBool True)"
proof -
  obtain m' where
    "loadArgs_loop U (pre @ ((CHR ''-'' # CHR ''-'' # x) # post)) m =
       loadArgs_loop U ((CHR ''-'' # CHR ''-'' # x) # post) m'"
    using loadArgs_loop_prefix[of "(CHR ''-'' # CHR ''-'' # x) # post" _ pre m] by auto
  then show ?thesis
    using assms by (auto simp add: loadArgs_loop_flag loadArgs_loop_other map_of_assign
        simp del: loadArgs_loop.simps)
qed

text \<open>
  C6.  \<open>loadArgs\<close> never returns an error.  The keys it adds are exactly the
  lower-cased rests of the tokens that start with \<open>--\<close>, so a token that does not
  start with \<open>--\<close> creates no key, and every other key keeps its value.  A token
  \<open>--X\<close> followed by a token \<open>Y\<close> that does not start with \<open>--\<close> leaves the
  inferred value of \<open>Y\<close> under the lower-cased \<open>X\<close>; a token \<open>--X\<close> followed by a
  token that starts with \<open>--\<close>, or by nothing, leaves the boolean \<open>true\<close> there; in
  both cases unless a later token writes the same key: the value is stored into the
  overlay that the tokens before have built, and the tokens after run on the result.
\<close>

theorem loadArgs_tokens:
  "(\<exists>m'. loadArgs U a m = Inr m') \<and>
   (withArgs a = None \<longrightarrow> loadArgs U a m = Inr m) \<and>
   (withArgs a = Some args \<longrightarrow>
      (\<exists>m'. loadArgs U a m = Inr m' \<and>
         keys m' = keys m \<union> arg_keys U args \<and>
         (\<forall>k. k \<notin> arg_keys U args \<longrightarrow> map_of m' k = map_of m k) \<and>
         (\<forall>pre x y post.
            args = pre @ [''--'' @ x, y] @ post \<and> \<not> HasPrefix y ''--'' \<and>
            ToLower U x \<notin> arg_keys U post \<longrightarrow>
            map_of m' (ToLower U x) = Some (parseValue y)) \<and>
         (\<forall>pre x post.
            args = pre @ [''--'' @ x] @ post \<and> (post = [] \<or> HasPrefix (hd post) ''--'') \<and>
            ToLower U x \<notin> arg_keys U post \<longrightarrow>
            map_of m' (ToLower U x) = Some (VBool True)))) \<and>
   (withArgs a = Some (before @ [''--'' @ X, Y] @ after) \<and> \<not> HasPrefix Y ''--'' \<longrightarrow>
      (\<exists>m0. loadArgs U a m =
         Inr (loadArgs_loop U after (assign m0 (ToLower U X) (parseValue Y))))) \<and>
   (withArgs a = Some (before @ [''--'' @ X] @ after) \<and>
    (after = [] \<or> HasPrefix (hd after) ''--'') \<longrightarrow>
      (\<exists>m0. loadArgs U a m =
         Inr (loadArgs_loop U after (assign m0 (ToLower U X) (VBool True)))))"
proof -
  have total: "\<exists>m'. loadArgs U a m = Inr m'"
    by (simp add: loadArgs_def split: option.splits)
  have nil: "withArgs a = None \<longrightarrow> loadArgs U a m = Inr m"
    by (simp add: loadArgs_def)
  have some: "withArgs a = Some args \<longrightarrow>
      (\<exists>m'. loadArgs U a m = Inr m' \<and>
         keys m' = keys m \<union> arg_keys U args \<and>
         (\<forall>k. k \<notin> arg_keys U args \<longrightarrow> map_of m' k = map_of m k) \<and>
         (\<forall>pre x y post.
            args = pre @ [''--'' @ x, y] @ post \<and> \<not> HasPrefix y ''--'' \<and>
            ToLower U x \<notin> arg_keys U post \<longrightarrow>
            map_of m' (ToLower U x) = Some (parseValue y)) \<and>
         (\<forall>pre x post.
            args = pre @ [''--'' @ x] @ post \<and> (post = [] \<or> HasPrefix (hd post) ''--'') \<and>
            ToLower U x \<notin> arg_keys U post \<longrightarrow>
            map_of m' (ToLower U x) = Some (VBool True)))"
  proof
    assume args: "withArgs a = Some args"
    let ?m' = "loadArgs_loop U args m"
    have 1: "loadArgs U a m = Inr ?m'" using args by (simp add: loadArgs_def)
    have 2: "keys ?m' = keys m \<union> arg_keys U args" by (rule keys_loadArgs_loop)
    have 3: "\<forall>k. k \<notin> arg_keys U args \<longrightarrow> map_of ?m' k = map_of m k"
      by (simp add: loadArgs_loop_other)
    have 4: "\<forall>pre x y post.
            args = pre @ [''--'' @ x, y] @ post \<and> \<not> HasPrefix y ''--'' \<and>
            ToLower U x \<notin> arg_keys U post \<longrightarrow>
            map_of ?m' (ToLower U x) = Some (parseValue y)"
      using loadArgs_loop_value by blast
    have 5: "\<forall>pre x post.
            args = pre @ [''--'' @ x] @ post \<and> (post = [] \<or> HasPrefix (hd post) ''--'') \<and>
            ToLower U x \<notin> arg_keys U post \<longrightarrow>
            map_of ?m' (ToLower U x) = Some (VBool True)"
      using loadArgs_loop_bool by blast
    from 1 2 3 4 5 show "\<exists>m'. loadArgs U a m = Inr m' \<and>
         keys m' = keys m \<union> arg_keys U args \<and>
         (\<forall>k. k \<notin> arg_keys U args \<longrightarrow> map_of m' k = map_of m k) \<and>
         (\<forall>pre x y post.
            args = pre @ [''--'' @ x, y] @ post \<and> \<not> HasPrefix y ''--'' \<and>
            ToLower U x \<notin> arg_keys U post \<longrightarrow>
            map_of m' (ToLower U x) = Some (parseValue y)) \<and>
         (\<forall>pre x post.
            args = pre @ [''--'' @ x] @ post \<and> (post = [] \<or> HasPrefix (hd post) ''--'') \<and>
            ToLower U x \<notin> arg_keys U post \<longrightarrow>
            map_of m' (ToLower U x) = Some (VBool True))"
      by blast
  qed
  have store_value:
    "withArgs a = Some (before @ [''--'' @ X, Y] @ after) \<and> \<not> HasPrefix Y ''--'' \<longrightarrow>
      (\<exists>m0. loadArgs U a m =
         Inr (loadArgs_loop U after (assign m0 (ToLower U X) (parseValue Y))))"
  proof (intro impI, elim conjE)
    assume w: "withArgs a = Some (before @ [''--'' @ X, Y] @ after)" and y: "\<not> HasPrefix Y ''--''"
    obtain m0 where
      "loadArgs_loop U (before @ ((CHR ''-'' # CHR ''-'' # X) # Y # after)) m =
         loadArgs_loop U ((CHR ''-'' # CHR ''-'' # X) # Y # after) m0"
      using loadArgs_loop_prefix[of "(CHR ''-'' # CHR ''-'' # X) # Y # after" _ before m] by auto
    then have "loadArgs U a m = Inr (loadArgs_loop U after (assign m0 (ToLower U X) (parseValue Y)))"
      using w y by (simp add: loadArgs_def loadArgs_loop_flag loadArgs_loop_inert
          del: loadArgs_loop.simps)
    then show "\<exists>m0. loadArgs U a m =
         Inr (loadArgs_loop U after (assign m0 (ToLower U X) (parseValue Y)))" by blast
  qed
  have store_true:
    "withArgs a = Some (before @ [''--'' @ X] @ after) \<and>
     (after = [] \<or> HasPrefix (hd after) ''--'') \<longrightarrow>
      (\<exists>m0. loadArgs U a m =
         Inr (loadArgs_loop U after (assign m0 (ToLower U X) (VBool True))))"
  proof (intro impI, elim conjE)
    assume w: "withArgs a = Some (before @ [''--'' @ X] @ after)"
      and y: "after = [] \<or> HasPrefix (hd after) ''--''"
    obtain m0 where
      "loadArgs_loop U (before @ ((CHR ''-'' # CHR ''-'' # X) # after)) m =
         loadArgs_loop U ((CHR ''-'' # CHR ''-'' # X) # after) m0"
      using loadArgs_loop_prefix[of "(CHR ''-'' # CHR ''-'' # X) # after" _ before m] by auto
    then have "loadArgs U a m = Inr (loadArgs_loop U after (assign m0 (ToLower U X) (VBool True)))"
      using w y by (auto simp add: loadArgs_def loadArgs_loop_flag
          simp del: loadArgs_loop.simps)
    then show "\<exists>m0. loadArgs U a m =
         Inr (loadArgs_loop U after (assign m0 (ToLower U X) (VBool True)))" by blast
  qed
  from total nil some store_value store_true show ?thesis by (intro conjI)
qed


theorem loadArgs_tokens_witness:
  "withArgs args_example = Some ([''program''] @ [''--'' @ ''Port'', ''9000''] @ [''--verbose'', ''--Debug'']) \<and>
   \<not> HasPrefix ''9000'' ''--'' \<and>
   ToLower example_tables ''Port'' \<notin> arg_keys example_tables [''--verbose'', ''--Debug''] \<and>
   HasPrefix (hd [''--Debug'']) ''--'' \<and>
   ToLower example_tables ''verbose'' \<notin> arg_keys example_tables [''--Debug''] \<and>
   (\<exists>m'. loadArgs example_tables args_example [] = Inr m' \<and>
         keys m' = {''port'', ''verbose'', ''debug''} \<and>
         map_of m' ''port'' = Some (VInt 9000) \<and>
         map_of m' ''verbose'' = Some (VBool True) \<and>
         map_of m' ''debug'' = Some (VBool True)) \<and>
   (\<exists>m0. loadArgs example_tables args_example [] =
      Inr (loadArgs_loop example_tables [''--verbose'', ''--Debug'']
             (assign m0 (ToLower example_tables ''Port'') (parseValue ''9000'')))) \<and>
   (\<exists>m0. loadArgs example_tables args_example [] =
      Inr (loadArgs_loop example_tables [''--Debug''] (assign m0 (ToLower example_tables ''verbose'') (VBool True))))"
proof -
  let ?args = "[''program'', ''--Port'', ''9000'', ''--verbose'', ''--Debug'']"
  have e: "withArgs args_example = Some ?args"
    by (simp add: args_example_def WithArgs_def New_def)
  have low: "ToLower example_tables ''Port'' = ''port''" "ToLower example_tables ''verbose'' = ''verbose''"
    "ToLower example_tables ''Debug'' = ''debug''" by code_simp+
  have pv: "parseValue ''9000'' = VInt 9000" by code_simp
  have h1: "\<not> HasPrefix ''9000'' ''--''" by simp
  have h2: "HasPrefix (hd [''--Debug'']) ''--''" by simp
  have k0: "arg_keys example_tables [''--Debug''] = {''debug''}"
    using arg_keys_flag[of example_tables "''Debug''"] low by simp
  have k1: "arg_keys example_tables [''--verbose'', ''--Debug''] = {''verbose'', ''debug''}"
    using arg_keys_Cons[of example_tables "''--verbose''" "[''--Debug'']"] arg_keys_flag[of example_tables "''verbose''"] k0 low
    by auto
  have k2: "arg_keys example_tables [''9000'', ''--verbose'', ''--Debug''] = {''verbose'', ''debug''}"
    using arg_keys_Cons[of example_tables "''9000''" "[''--verbose'', ''--Debug'']"] arg_keys_inert[OF h1] k1
    by auto
  have k3: "arg_keys example_tables [''--Port'', ''9000'', ''--verbose'', ''--Debug''] = {''port'', ''verbose'', ''debug''}"
    using arg_keys_Cons[of example_tables "''--Port''" "[''9000'', ''--verbose'', ''--Debug'']"]
      arg_keys_flag[of example_tables "''Port''"] k2 low by auto
  have k4: "arg_keys example_tables ?args = {''port'', ''verbose'', ''debug''}"
    using arg_keys_Cons[of example_tables "''program''" "[''--Port'', ''9000'', ''--verbose'', ''--Debug'']"]
      arg_keys_inert[of "''program''"] k3 by auto
  note T = loadArgs_tokens [of example_tables args_example "[]" ?args]
  from T[THEN conjunct2, THEN conjunct2, THEN conjunct1, THEN mp, OF e]
  obtain m' where all: "loadArgs example_tables args_example [] = Inr m' \<and>
         keys m' = keys ([] :: overlay) \<union> arg_keys example_tables ?args \<and>
         (\<forall>k. k \<notin> arg_keys example_tables ?args \<longrightarrow> map_of m' k = map_of ([] :: overlay) k) \<and>
         (\<forall>pre x y post.
            ?args = pre @ [''--'' @ x, y] @ post \<and> \<not> HasPrefix y ''--'' \<and>
            ToLower example_tables x \<notin> arg_keys example_tables post \<longrightarrow>
            map_of m' (ToLower example_tables x) = Some (parseValue y)) \<and>
         (\<forall>pre x post.
            ?args = pre @ [''--'' @ x] @ post \<and> (post = [] \<or> HasPrefix (hd post) ''--'') \<and>
            ToLower example_tables x \<notin> arg_keys example_tables post \<longrightarrow>
            map_of m' (ToLower example_tables x) = Some (VBool True))"
    by (erule exE)
  note m' = all[THEN conjunct1] all[THEN conjunct2, THEN conjunct1]
    all[THEN conjunct2, THEN conjunct2, THEN conjunct2, THEN conjunct1]
    all[THEN conjunct2, THEN conjunct2, THEN conjunct2, THEN conjunct2]
  have a: "keys m' = {''port'', ''verbose'', ''debug''}"
    using m'(2) k4 by (simp add: keys_def)
  have "map_of m' (ToLower example_tables ''Port'') = Some (parseValue ''9000'')"
    using m'(3)[rule_format, of "[''program'']" "''Port''" "''9000''" "[''--verbose'', ''--Debug'']"]
      h1 k1 low by simp
  then have b: "map_of m' ''port'' = Some (VInt 9000)" by (simp only: low pv)
  have "map_of m' (ToLower example_tables ''verbose'') = Some (VBool True)"
    using m'(4)[rule_format, of "[''program'', ''--Port'', ''9000'']" "''verbose''" "[''--Debug'']"]
      h2 k0 low by simp
  then have c: "map_of m' ''verbose'' = Some (VBool True)" by (simp only: low)
  have "map_of m' (ToLower example_tables ''Debug'') = Some (VBool True)"
    using m'(4)[rule_format, of "[''program'', ''--Port'', ''9000'', ''--verbose'']" "''Debug''" "[]"]
    by (simp add: arg_keys_Nil)
  then have d: "map_of m' ''debug'' = Some (VBool True)" by (simp only: low)
  have n1: "ToLower example_tables ''Port'' \<notin> arg_keys example_tables [''--verbose'', ''--Debug'']" using k1 low by simp
  have n2: "ToLower example_tables ''verbose'' \<notin> arg_keys example_tables [''--Debug'']" using k0 low by simp
  have sv: "\<exists>m0. loadArgs example_tables args_example [] =
      Inr (loadArgs_loop example_tables [''--verbose'', ''--Debug'']
             (assign m0 (ToLower example_tables ''Port'') (parseValue ''9000'')))"
    using loadArgs_tokens [where U = example_tables and a = args_example and m = "[]" and before = "[''program'']"
        and X = "''Port''" and Y = "''9000''" and after = "[''--verbose'', ''--Debug'']",
        THEN conjunct2, THEN conjunct2, THEN conjunct2, THEN conjunct1] e h1
    by simp
  have sb: "\<exists>m0. loadArgs example_tables args_example [] =
      Inr (loadArgs_loop example_tables [''--Debug''] (assign m0 (ToLower example_tables ''verbose'') (VBool True)))"
    using loadArgs_tokens [where U = example_tables and a = args_example and m = "[]"
        and before = "[''program'', ''--Port'', ''9000'']"
        and X = "''verbose''" and after = "[''--Debug'']",
        THEN conjunct2, THEN conjunct2, THEN conjunct2, THEN conjunct2] e h2
    by simp
  from e h1 n1 h2 n2 m'(1) a b c d sv sb show ?thesis by auto
qed

subsection \<open>Value inference\<close>

text \<open>
  C2.  \<open>parseValue\<close> tries the boolean parse first, then the integer parse, then the
  float parse, and returns the string itself when all three fail.  So \<open>true\<close> and
  \<open>False\<close> are booleans, \<open>0\<close> is the boolean \<open>false\<close> and not the integer 0, \<open>123\<close>
  is the integer 123, \<open>-45.6\<close> is the \<open>float64\<close> nearest to -45.6 (which is
  \<open>-6417629469002957 \<cdot> 2\<^sup>-\<^sup>4\<^sup>7\<close>, less than half a unit in the last place away), and
  \<open>hello\<close>, the empty string and \<open>123abc\<close> stay strings.
\<close>

theorem parseValue_inference:
  "(ParseBool v = Some b \<longrightarrow> parseValue v = VBool b) \<and>
   (ParseBool v = None \<and> Atoi v = Some n \<longrightarrow> parseValue v = VInt n) \<and>
   (ParseBool v = None \<and> Atoi v = None \<and> ParseFloat v = Some f \<longrightarrow> parseValue v = VFloat f) \<and>
   (ParseBool v = None \<and> Atoi v = None \<and> ParseFloat v = None \<longrightarrow> parseValue v = VString v) \<and>
   parseValue ''true'' = VBool True \<and>
   parseValue ''False'' = VBool False \<and>
   parseValue ''0'' = VBool False \<and>
   parseValue ''123'' = VInt 123 \<and>
   parseValue ''-45.6'' = VFloat (Finite True 6417629469002957 (- 47)) \<and>
   \<bar>456 * 2 ^ 47 - 10 * 6417629469002957\<bar> < (5 :: int) \<and>
   parseValue ''hello'' = VString ''hello'' \<and>
   parseValue [] = VString [] \<and>
   parseValue ''123abc'' = VString ''123abc''"
proof -
  have order:
    "(ParseBool v = Some b \<longrightarrow> parseValue v = VBool b) \<and>
     (ParseBool v = None \<and> Atoi v = Some n \<longrightarrow> parseValue v = VInt n) \<and>
     (ParseBool v = None \<and> Atoi v = None \<and> ParseFloat v = Some f \<longrightarrow> parseValue v = VFloat f) \<and>
     (ParseBool v = None \<and> Atoi v = None \<and> ParseFloat v = None \<longrightarrow> parseValue v = VString v)"
    by (simp add: parseValue_def)
  have examples:
    "parseValue ''true'' = VBool True \<and>
     parseValue ''False'' = VBool False \<and>
     parseValue ''0'' = VBool False \<and>
     parseValue ''123'' = VInt 123 \<and>
     parseValue ''-45.6'' = VFloat (Finite True 6417629469002957 (- 47)) \<and>
     parseValue ''hello'' = VString ''hello'' \<and>
     parseValue [] = VString [] \<and>
     parseValue ''123abc'' = VString ''123abc''"
    by code_simp
  have near: "\<bar>456 * 2 ^ 47 - 10 * 6417629469002957\<bar> < (5 :: int)"
    by simp
  from order examples near show ?thesis by (simp only: simp_thms)
qed

theorem parseValue_inference_witness:
  "ParseBool ''T'' = Some True \<and> parseValue ''T'' = VBool True \<and>
   ParseBool ''+7'' = None \<and> Atoi ''+7'' = Some 7 \<and> parseValue ''+7'' = VInt 7 \<and>
   ParseFloat ''1e3'' = Some (Finite False 8796093022208000 (- 43)) \<and>
   parseValue ''1e3'' = VFloat (Finite False 8796093022208000 (- 43)) \<and>
   ParseFloat ''12ab'' = None \<and> parseValue ''12ab'' = VString ''12ab''"
proof -
  have b: "ParseBool ''T'' = Some True" by code_simp
  have i: "ParseBool ''+7'' = None \<and> Atoi ''+7'' = Some 7" by code_simp
  have f: "ParseBool ''1e3'' = None \<and> Atoi ''1e3'' = None \<and>
           ParseFloat ''1e3'' = Some (Finite False 8796093022208000 (- 43))" by code_simp
  have s: "ParseBool ''12ab'' = None \<and> Atoi ''12ab'' = None \<and> ParseFloat ''12ab'' = None"
    by code_simp
  have "parseValue ''T'' = VBool True"
    using b parseValue_inference [of "''T''" True 0 NaN] by (simp only: simp_thms)
  moreover have "parseValue ''+7'' = VInt 7"
    using i parseValue_inference [of "''+7''" True 7 NaN] by (simp only: simp_thms)
  moreover have "parseValue ''1e3'' = VFloat (Finite False 8796093022208000 (- 43))"
    using f parseValue_inference [of "''1e3''" True 0 "Finite False 8796093022208000 (- 43)"]
    by (simp only: simp_thms)
  moreover have "parseValue ''12ab'' = VString ''12ab''"
    using s parseValue_inference [of "''12ab''" True 0 NaN] by (simp only: simp_thms)
  ultimately show ?thesis using b i f s by (simp only: simp_thms)
qed

subsection \<open>Priority of the sources\<close>


subsection \<open>The stages only add keys\<close>

lemma keys_merge: "keys (merge m fileConfig) = keys m \<union> keys fileConfig"
  unfolding merge_def
proof (induction fileConfig arbitrary: m)
  case Nil then show ?case by (simp add: keys_def)
next
  case (Cons kv fc)
  show ?case unfolding foldl_Cons Cons.IH keys_assign by (auto simp: keys_def)
qed

lemma loadConfigFile_keys: "loadConfigFile w p m = Inr m' \<Longrightarrow> keys m \<subseteq> keys m'"
  by (auto simp: loadConfigFile_def keys_merge split: file_state.splits sum.splits)

text \<open>
  C8.  No stage removes a key: whenever the file loader (for the base file or the
  environment file), the environment-variable overlay or the argument overlay returns
  an overlay, its keys include the keys of the overlay the stage started from.
\<close>

theorem stages_keep_keys:
  "(loadConfigFile w p m = Inr m' \<longrightarrow> keys m \<subseteq> keys m') \<and>
   (loadEnvConfig w a dir m = Inr m' \<longrightarrow> keys m \<subseteq> keys m') \<and>
   (loadEnvVars U a m = Inr m' \<longrightarrow> keys m \<subseteq> keys m') \<and>
   (loadArgs U a m = Inr m' \<longrightarrow> keys m \<subseteq> keys m')"
proof -
  have 1: "loadConfigFile w p m = Inr m' \<longrightarrow> keys m \<subseteq> keys m'"
    using loadConfigFile_keys by blast
  have 2: "loadEnvConfig w a dir m = Inr m' \<longrightarrow> keys m \<subseteq> keys m'"
    using loadConfigFile_keys by (auto simp: loadEnvConfig_def split: option.splits)
  have 3: "loadEnvVars U a m = Inr m' \<longrightarrow> keys m \<subseteq> keys m'"
    by (auto simp: loadEnvVars_def keys_foldl_envVar_step split: option.splits)
  have 4: "loadArgs U a m = Inr m' \<longrightarrow> keys m \<subseteq> keys m'"
    by (auto simp: loadArgs_def keys_loadArgs_loop split: option.splits)
  from 1 2 3 4 show ?thesis by (intro conjI)
qed

theorem stages_keep_keys_witness:
  "loadConfigFile priority_world ''/etc/app/config.json'' [(''name'', VString ''app'')] =
     Inr [(''name'', VString ''app''), (''port'', VFloat (Finite False 8884053952430080 (- 40)))] \<and>
   loadEnvConfig priority_world priority_settings ''/etc/app'' [(''name'', VString ''app'')] =
     Inr [(''name'', VString ''app''), (''port'', VFloat (Finite False 8895049068707840 (- 40)))] \<and>
   loadEnvVars example_tables priority_settings [(''name'', VString ''app'')] =
     Inr [(''name'', VString ''app''), (''port'', VInt 9000)] \<and>
   loadArgs example_tables priority_settings [(''name'', VString ''app'')] =
     Inr [(''name'', VString ''app''), (''port'', VInt 3000)] \<and>
   keys [(''name'', VString ''app'')] \<subseteq>
     keys [(''name'', VString ''app''), (''port'', VFloat (Finite False 8884053952430080 (- 40)))] \<and>
   keys [(''name'', VString ''app'')] \<subseteq>
     keys [(''name'', VString ''app''), (''port'', VFloat (Finite False 8895049068707840 (- 40)))] \<and>
   keys [(''name'', VString ''app'')] \<subseteq> keys [(''name'', VString ''app''), (''port'', VInt 9000)] \<and>
   keys [(''name'', VString ''app'')] \<subseteq> keys [(''name'', VString ''app''), (''port'', VInt 3000)]"
proof -
  have f: "loadConfigFile priority_world ''/etc/app/config.json'' [(''name'', VString ''app'')] =
     Inr [(''name'', VString ''app''), (''port'', VFloat (Finite False 8884053952430080 (- 40)))]"
    by code_simp
  have g: "loadEnvConfig priority_world priority_settings ''/etc/app'' [(''name'', VString ''app'')] =
     Inr [(''name'', VString ''app''), (''port'', VFloat (Finite False 8895049068707840 (- 40)))]"
    by code_simp
  have v: "loadEnvVars example_tables priority_settings [(''name'', VString ''app'')] =
     Inr [(''name'', VString ''app''), (''port'', VInt 9000)]"
    by code_simp
  have r: "loadArgs example_tables priority_settings [(''name'', VString ''app'')] =
     Inr [(''name'', VString ''app''), (''port'', VInt 3000)]"
    by code_simp
  note f' = stages_keep_keys[THEN conjunct1, THEN mp, OF f]
  note g' = stages_keep_keys[THEN conjunct2, THEN conjunct1, THEN mp, OF g]
  note v' = stages_keep_keys[THEN conjunct2, THEN conjunct2, THEN conjunct1, THEN mp, OF v]
  note r' = stages_keep_keys[THEN conjunct2, THEN conjunct2, THEN conjunct2, THEN mp, OF r]
  from f g v r f' g' v' r' show ?thesis by (intro conjI)
qed

subsection \<open>Loading without any source\<close>

lemma unmarshalToType_empty: "unmarshalToType U T [] = Inr (zero_instance T)"
  by (simp add: unmarshalToType_def sort_keys_def)

lemma loadConfigFile_NotExist: "ReadFile w p = NotExist \<Longrightarrow> loadConfigFile w p m = Inr m"
  by (simp add: loadConfigFile_def)

text \<open>
  C9.  The resolver returns a configured directory as it is, whether it exists or not,
  and its result does not depend on the files at all.  When the resolver returns a
  directory, neither the base file nor the environment file (if an environment is set)
  exists there, and no environment variables and no arguments are configured, \<open>Load\<close>
  succeeds with the zero value of the schema type.
\<close>

theorem Load_no_sources:
  "(withConfigDirectory a = Some dir \<longrightarrow> getConfigDirectory w a = Inr dir) \<and>
   (getConfigDirectory w a = Inr dir \<and>
    ReadFile w (filepath_Join dir ''config.json'') = NotExist \<and>
    (\<forall>environment. withEnvironment a = Some environment \<longrightarrow>
       ReadFile w (filepath_Join dir (''config.'' @ environment @ ''.json'')) = NotExist) \<and>
    (withEnvVars a = None \<or> withEnvVars a = Some []) \<and>
    (withArgs a = None \<or> withArgs a = Some []) \<longrightarrow>
    Load U w T a = Inr (zero_instance T)) \<and>
   getConfigDirectory (w\<lparr>ReadFile := files\<rparr>) a = getConfigDirectory w a"
proof -
  have 1: "withConfigDirectory a = Some dir \<longrightarrow> getConfigDirectory w a = Inr dir"
    by (simp add: getConfigDirectory_def)
  have 2: "getConfigDirectory w a = Inr dir \<and>
    ReadFile w (filepath_Join dir ''config.json'') = NotExist \<and>
    (\<forall>environment. withEnvironment a = Some environment \<longrightarrow>
       ReadFile w (filepath_Join dir (''config.'' @ environment @ ''.json'')) = NotExist) \<and>
    (withEnvVars a = None \<or> withEnvVars a = Some []) \<and>
    (withArgs a = None \<or> withArgs a = Some []) \<longrightarrow>
    Load U w T a = Inr (zero_instance T)"
  proof (intro impI, elim conjE)
    assume dir: "getConfigDirectory w a = Inr dir"
      and base: "ReadFile w (filepath_Join dir ''config.json'') = NotExist"
      and env: "\<forall>environment. withEnvironment a = Some environment \<longrightarrow>
         ReadFile w (filepath_Join dir (''config.'' @ environment @ ''.json'')) = NotExist"
      and vars: "withEnvVars a = None \<or> withEnvVars a = Some []"
      and args: "withArgs a = None \<or> withArgs a = Some []"
    have b: "loadConfigFile w (filepath_Join dir ''config.json'') [] = Inr []"
      using base by (rule loadConfigFile_NotExist)
    have e: "loadEnvConfig w a dir [] = Inr []"
      using env by (auto simp: loadEnvConfig_def loadConfigFile_NotExist split: option.splits)
    have v: "loadEnvVars U a [] = Inr []"
      using vars by (auto simp: loadEnvVars_def)
    have r: "loadArgs U a [] = Inr []"
      using args by (auto simp: loadArgs_def)
    show "Load U w T a = Inr (zero_instance T)"
      by (simp add: Load_def dir b e v r unmarshalToType_empty)
  qed
  have 3: "getConfigDirectory (w\<lparr>ReadFile := files\<rparr>) a = getConfigDirectory w a"
    by (simp add: getConfigDirectory_def getWD_def split: option.splits)
  from 1 2 3 show ?thesis by (intro conjI)
qed

theorem Load_no_sources_witness:
  "withConfigDirectory no_sources_settings = Some ''/nonexistent/path/that/does/not/exist'' \<and>
   getConfigDirectory no_files no_sources_settings = Inr ''/nonexistent/path/that/does/not/exist'' \<and>
   withEnvironment no_sources_settings = Some ''dev'' \<and>
   withEnvVars no_sources_settings = None \<and> withArgs no_sources_settings = None \<and>
   Load example_tables no_files TestConfig no_sources_settings =
     Inr [(''databaseURL'', VString []), (''port'', VInt 0), (''debugMode'', VBool False),
          (''timeout'', VFloat (Finite False 0 0)), (''name'', VString [])]"
proof -
  let ?dir = "''/nonexistent/path/that/does/not/exist''"
  have c: "withConfigDirectory no_sources_settings = Some ?dir"
    by (simp add: no_sources_settings_def WithEnvironment_def WithConfigDirectory_def New_def)
  have e: "withEnvironment no_sources_settings = Some ''dev''"
    by (simp add: no_sources_settings_def WithEnvironment_def WithConfigDirectory_def New_def)
  have v: "withEnvVars no_sources_settings = None"
    by (simp add: no_sources_settings_def WithEnvironment_def WithConfigDirectory_def New_def)
  have r: "withArgs no_sources_settings = None"
    by (simp add: no_sources_settings_def WithEnvironment_def WithConfigDirectory_def New_def)
  have f: "\<And>p. ReadFile no_files p = NotExist" by (simp add: no_files_def)
  note T = Load_no_sources [of no_sources_settings ?dir no_files example_tables TestConfig]
  have d: "getConfigDirectory no_files no_sources_settings = Inr ?dir"
    using T[THEN conjunct1] c by (rule mp)
  have "Load example_tables no_files TestConfig no_sources_settings = Inr (zero_instance TestConfig)"
    using T[THEN conjunct2, THEN conjunct1] d f v r by blast
  then have l: "Load example_tables no_files TestConfig no_sources_settings =
     Inr [(''databaseURL'', VString []), (''port'', VInt 0), (''debugMode'', VBool False),
          (''timeout'', VFloat (Finite False 0 0)), (''name'', VString [])]"
    by (simp add: zero_instance_def TestConfig_def)
  from c d e v r l show ?thesis by (intro conjI)
qed

subsection \<open>Files that are not objects\<close>

text \<open>
  C10.  A file whose content is the JSON literal \<open>null\<close> is accepted by
  \<open>loadConfigFile\<close> and leaves the overlay as it is, whereas a file whose content is a
  top-level array, string or number is a type error.
\<close>

theorem loadConfigFile_null:
  "(ReadFile w p = Content (Some JNull) \<longrightarrow> loadConfigFile w p m = Inr m) \<and>
   (ReadFile w p = Content (Some (JArray xs)) \<longrightarrow> loadConfigFile w p m = Inl UnmarshalTypeError) \<and>
   (ReadFile w p = Content (Some (JString s)) \<longrightarrow> loadConfigFile w p m = Inl UnmarshalTypeError) \<and>
   (ReadFile w p = Content (Some (JNumber n)) \<longrightarrow> loadConfigFile w p m = Inl UnmarshalTypeError)"
  by (simp add: loadConfigFile_def merge_def)

theorem loadConfigFile_null_witness:
  "ReadFile (single_file (Content (Some JNull))) ''/etc/app/config.json'' = Content (Some JNull) \<and>
   loadConfigFile (single_file (Content (Some JNull))) ''/etc/app/config.json''
     [(''port'', VInt 8080)] = Inr [(''port'', VInt 8080)] \<and>
   ReadFile (single_file (Content (Some (JArray [])))) ''/etc/app/config.json'' =
     Content (Some (JArray [])) \<and>
   loadConfigFile (single_file (Content (Some (JArray [])))) ''/etc/app/config.json''
     [(''port'', VInt 8080)] = Inl UnmarshalTypeError \<and>
   ReadFile (single_file (Content (Some (JString ''port'')))) ''/etc/app/config.json'' =
     Content (Some (JString ''port'')) \<and>
   loadConfigFile (single_file (Content (Some (JString ''port'')))) ''/etc/app/config.json''
     [(''port'', VInt 8080)] = Inl UnmarshalTypeError \<and>
   ReadFile (single_file (Content (Some (JNumber (IntLit False 8080))))) ''/etc/app/config.json'' =
     Content (Some (JNumber (IntLit False 8080))) \<and>
   loadConfigFile (single_file (Content (Some (JNumber (IntLit False 8080))))) ''/etc/app/config.json''
     [(''port'', VInt 8080)] = Inl UnmarshalTypeError"
proof -
  have r: "\<And>f. ReadFile (single_file f) ''/etc/app/config.json'' = f"
    by (simp add: single_file_def)
  note a = loadConfigFile_null[THEN conjunct1, THEN mp, OF r]
  note b = loadConfigFile_null[THEN conjunct2, THEN conjunct1, THEN mp, OF r]
  note c = loadConfigFile_null[THEN conjunct2, THEN conjunct2, THEN conjunct1, THEN mp, OF r]
  note d = loadConfigFile_null[THEN conjunct2, THEN conjunct2, THEN conjunct2, THEN mp, OF r]
  from r a b c d show ?thesis by (intro conjI)
qed

text \<open>
  C5, as stated, fails: a file whose bytes are the literal \<open>null\<close> exists and is not a
  JSON object, yet \<open>loadConfigFile\<close> returns no error and \<open>Load\<close> returns a result.
\<close>

theorem loadConfigFile_null_accepted:
  "ReadFile (single_file (Content (Some JNull))) ''/etc/app/config.json'' = Content (Some JNull) \<and>
   loadConfigFile (single_file (Content (Some JNull))) ''/etc/app/config.json''
     [(''port'', VInt 8080)] = Inr [(''port'', VInt 8080)] \<and>
   Load example_tables (single_file (Content (Some JNull))) [(''port'', TInt)]
     (WithConfigDirectory ''/etc/app'' New) = Inr [(''port'', VInt 0)]"
proof -
  have 1: "ReadFile (single_file (Content (Some JNull))) ''/etc/app/config.json'' = Content (Some JNull)"
    by (simp add: single_file_def)
  have 2: "loadConfigFile (single_file (Content (Some JNull))) ''/etc/app/config.json''
     [(''port'', VInt 8080)] = Inr [(''port'', VInt 8080)]"
    by code_simp
  have 3: "Load example_tables (single_file (Content (Some JNull))) [(''port'', TInt)]
     (WithConfigDirectory ''/etc/app'' New) = Inr [(''port'', VInt 0)]"
    by code_simp
  from 1 2 3 show ?thesis by (intro conjI)
qed

lemma Unmarshal_map_not_object:
  "data = None \<or> (\<exists>b. data = Some (JBool b)) \<or> (\<exists>n. data = Some (JNumber n)) \<or>
   (\<exists>s. data = Some (JString s)) \<or> (\<exists>xs. data = Some (JArray xs)) \<Longrightarrow>
   \<exists>e. Unmarshal_map data = Inl e"
  by auto

text \<open>
  C5, amended.  \<open>loadConfigFile\<close> returns the overlay unchanged when the file does
  not exist, and returns an error when the content of the file is no JSON text, or is a
  top-level boolean, number, string or array.  An error of the base file or of the
  environment file makes \<open>Load\<close> return that error, with its stage, and no result.
\<close>

theorem loadConfigFile_optional_or_error:
  "(ReadFile w p = NotExist \<longrightarrow> loadConfigFile w p m = Inr m) \<and>
   (ReadFile w p = Content data \<and>
    (data = None \<or> (\<exists>b. data = Some (JBool b)) \<or> (\<exists>n. data = Some (JNumber n)) \<or>
     (\<exists>s. data = Some (JString s)) \<or> (\<exists>xs. data = Some (JArray xs))) \<longrightarrow>
    (\<exists>e. loadConfigFile w p m = Inl e)) \<and>
   (getConfigDirectory w a = Inr dir \<and>
    loadConfigFile w (filepath_Join dir ''config.json'') [] = Inl e \<longrightarrow>
    Load U w T a = Inl (LoadBaseConfig, e)) \<and>
   (getConfigDirectory w a = Inr dir \<and>
    loadConfigFile w (filepath_Join dir ''config.json'') [] = Inr m1 \<and>
    withEnvironment a = Some environment \<and>
    loadConfigFile w (filepath_Join dir (''config.'' @ environment @ ''.json'')) m1 = Inl e \<longrightarrow>
    Load U w T a = Inl (LoadEnvConfig, e))"
proof -
  have 1: "ReadFile w p = NotExist \<longrightarrow> loadConfigFile w p m = Inr m"
    by (simp add: loadConfigFile_def)
  have 2: "ReadFile w p = Content data \<and>
    (data = None \<or> (\<exists>b. data = Some (JBool b)) \<or> (\<exists>n. data = Some (JNumber n)) \<or>
     (\<exists>s. data = Some (JString s)) \<or> (\<exists>xs. data = Some (JArray xs))) \<longrightarrow>
    (\<exists>e. loadConfigFile w p m = Inl e)"
    using Unmarshal_map_not_object[of data] by (auto simp: loadConfigFile_def)
  have 3: "getConfigDirectory w a = Inr dir \<and>
    loadConfigFile w (filepath_Join dir ''config.json'') [] = Inl e \<longrightarrow>
    Load U w T a = Inl (LoadBaseConfig, e)"
    by (simp add: Load_def)
  have 4: "getConfigDirectory w a = Inr dir \<and>
    loadConfigFile w (filepath_Join dir ''config.json'') [] = Inr m1 \<and>
    withEnvironment a = Some environment \<and>
    loadConfigFile w (filepath_Join dir (''config.'' @ environment @ ''.json'')) m1 = Inl e \<longrightarrow>
    Load U w T a = Inl (LoadEnvConfig, e)"
    by (simp add: Load_def loadEnvConfig_def)
  from 1 2 3 4 show ?thesis by (intro conjI)
qed

theorem loadConfigFile_optional_or_error_witness:
  "ReadFile no_files ''/etc/app/config.json'' = NotExist \<and>
   loadConfigFile no_files ''/etc/app/config.json'' [(''port'', VInt 8080)] =
     Inr [(''port'', VInt 8080)] \<and>
   ReadFile (single_file (Content (Some (JArray [])))) ''/etc/app/config.json'' =
     Content (Some (JArray [])) \<and>
   (\<exists>e. loadConfigFile (single_file (Content (Some (JArray [])))) ''/etc/app/config.json''
          [(''port'', VInt 8080)] = Inl e) \<and>
   getConfigDirectory (single_file (Content None)) (WithConfigDirectory ''/etc/app'' New) =
     Inr ''/etc/app'' \<and>
   loadConfigFile (single_file (Content None)) (filepath_Join ''/etc/app'' ''config.json'') [] =
     Inl SyntaxError \<and>
   Load example_tables (single_file (Content None)) TestConfig (WithConfigDirectory ''/etc/app'' New) =
     Inl (LoadBaseConfig, SyntaxError) \<and>
   withEnvironment (WithEnvironment ''dev'' (WithConfigDirectory ''/etc/app'' New)) = Some ''dev'' \<and>
   loadConfigFile invalid_env_world (filepath_Join ''/etc/app'' (''config.'' @ ''dev'' @ ''.json''))
     [(''port'', VFloat (Finite False 8884053952430080 (- 40)))] = Inl SyntaxError \<and>
   Load example_tables invalid_env_world TestConfig (WithEnvironment ''dev'' (WithConfigDirectory ''/etc/app'' New)) =
     Inl (LoadEnvConfig, SyntaxError)"
proof -
  let ?m = "[(''port'', VInt 8080)]"
  let ?a = "WithConfigDirectory ''/etc/app'' New"
  let ?b = "WithEnvironment ''dev'' (WithConfigDirectory ''/etc/app'' New)"
  let ?m1 = "[(''port'', VFloat (Finite False 8884053952430080 (- 40)))]"
  have r1: "ReadFile no_files ''/etc/app/config.json'' = NotExist"
    by (simp add: no_files_def)
  have c1: "loadConfigFile no_files ''/etc/app/config.json'' ?m = Inr ?m"
    using loadConfigFile_optional_or_error[THEN conjunct1] r1 by (rule mp)
  have r2: "ReadFile (single_file (Content (Some (JArray [])))) ''/etc/app/config.json'' =
     Content (Some (JArray []))"
    by (simp add: single_file_def)
  have c2: "\<exists>e. loadConfigFile (single_file (Content (Some (JArray [])))) ''/etc/app/config.json''
          ?m = Inl e"
    using loadConfigFile_optional_or_error[THEN conjunct2, THEN conjunct1,
        of "single_file (Content (Some (JArray [])))" "''/etc/app/config.json''"
           "Some (JArray [])" ?m] r2
    by blast
  have d3: "getConfigDirectory (single_file (Content None)) ?a = Inr ''/etc/app''"
    by code_simp
  have l3: "loadConfigFile (single_file (Content None)) (filepath_Join ''/etc/app'' ''config.json'') [] =
     Inl SyntaxError"
    by code_simp
  have c3: "Load example_tables (single_file (Content None)) TestConfig ?a = Inl (LoadBaseConfig, SyntaxError)"
    using loadConfigFile_optional_or_error[THEN conjunct2, THEN conjunct2, THEN conjunct1,
        of "single_file (Content None)" ?a "''/etc/app''" SyntaxError example_tables TestConfig] d3 l3
    by blast
  have d4: "getConfigDirectory invalid_env_world ?b = Inr ''/etc/app''"
    by code_simp
  have b4: "loadConfigFile invalid_env_world (filepath_Join ''/etc/app'' ''config.json'') [] = Inr ?m1"
    by code_simp
  have e4: "withEnvironment ?b = Some ''dev''"
    by (simp add: WithEnvironment_def)
  have l4: "loadConfigFile invalid_env_world
       (filepath_Join ''/etc/app'' (''config.'' @ ''dev'' @ ''.json'')) ?m1 = Inl SyntaxError"
    by code_simp
  have c4: "Load example_tables invalid_env_world TestConfig ?b = Inl (LoadEnvConfig, SyntaxError)"
    using loadConfigFile_optional_or_error[THEN conjunct2, THEN conjunct2, THEN conjunct2,
        of invalid_env_world ?b "''/etc/app''" ?m1 "''dev''" SyntaxError example_tables TestConfig] d4 b4 e4 l4
    by blast
  from r1 c1 r2 c2 d3 l3 c3 e4 l4 c4 show ?thesis by (intro conjI)
qed

subsection \<open>Serializing the inferred values\<close>

lemma float64_of_ratio_Finite:
  "float64_of_ratio neg n d = Some f \<Longrightarrow> \<exists>m e. f = Finite neg m e"
  by (auto simp: float64_of_ratio_def Let_def split: if_splits)
lemma float_literal_Finite: "\<exists>l. float_literal (Finite s m e) = Some l"
  by (simp split: option.splits)
lemma Marshal_members_ok:
  "(\<exists>kvs. Marshal_members m = Inr kvs) \<longleftrightarrow> (\<forall>kv\<in>set m. \<exists>j. Marshal (snd kv) = Inr j)"
  by (induction m) (auto split: sum.splits)
lemma Marshal_VMap_ok:
  "(\<exists>j. Marshal (VMap m) = Inr j) \<longleftrightarrow> (\<forall>kv\<in>set m. \<exists>j. Marshal (snd kv) = Inr j)"
  using Marshal_members_ok[of m] by (auto split: sum.splits)

lemma parse_number_Finite: "parse_number s = Some f \<Longrightarrow> \<exists>neg m e. f = Finite neg m e"
  unfolding parse_number_def Let_def
  by (auto split: prod.splits option.splits if_splits dest: float64_of_ratio_Finite)

lemma special_bool_spellings:
  "special ''1'' = None" "special ''t'' = None" "special ''T'' = None"
  "special ''TRUE'' = None" "special ''true'' = None" "special ''True'' = None"
  "special ''0'' = None" "special ''f'' = None" "special ''F'' = None"
  "special ''FALSE'' = None" "special ''false'' = None" "special ''False'' = None"
  by code_simp+

lemma ParseBool_not_special: "ParseBool v = Some b \<Longrightarrow> special v = None"
proof -
  let ?T = "set [''1'', ''t'', ''T'', ''TRUE'', ''true'', ''True'']"
  let ?F = "set [''0'', ''f'', ''F'', ''FALSE'', ''false'', ''False'']"
  assume p: "ParseBool v = Some b"
  have "v \<in> ?T \<or> v \<in> ?F"
  proof (rule ccontr)
    assume "\<not> (v \<in> ?T \<or> v \<in> ?F)"
    then have "v \<notin> ?T" "v \<notin> ?F" by (simp_all only: de_Morgan_disj not_False_eq_True)
    then have "ParseBool v = None" unfolding ParseBool_def by (simp only: if_False)
    with p show False by (simp only: option.distinct)
  qed
  moreover have "\<forall>s\<in>?T. special s = None"
    by (simp only: list.set ball_simps special_bool_spellings simp_thms)
  moreover have "\<forall>s\<in>?F. special s = None"
    by (simp only: list.set ball_simps special_bool_spellings simp_thms)
  ultimately show ?thesis by (elim disjE) (erule (1) bspec)+
qed

lemma digit_of_Some: "digit_of c = Some d \<Longrightarrow> c \<in> set ''0123456789''"
  unfolding digit_of_def by (metis map_of_SomeD set_zip_leftD)

lemma digit_not_upper: "c \<in> set ''0123456789'' \<Longrightarrow> c \<notin> set ascii_upper"
  by (auto simp: ascii_upper_def)

lemma digit_lower: "c \<in> set ''0123456789'' \<Longrightarrow> lower_byte c = c"
  by (rule lower_byte_other) (rule digit_not_upper)


lemma digits_val_Some:
  "digits_val acc s = Some n \<Longrightarrow> set s \<subseteq> set ''0123456789''"
proof (induction s arbitrary: acc)
  case Nil then show ?case by simp
next
  case (Cons c cs)
  from Cons.prems obtain d where d: "digit_of c = Some d" "digits_val (acc * 10 + d) cs = Some n"
    by (auto split: option.splits)
  from Cons.IH[OF d(2)] digit_of_Some[OF d(1)] show ?case by simp
qed

lemma digits_lower: "set s \<subseteq> set ''0123456789'' \<Longrightarrow> map lower_byte s = s"
  by (induction s) (simp_all only: list.map list.set insert_subset digit_lower simp_thms)

lemma letter_not_digit:
  "CHR ''i'' \<notin> set ''0123456789''" "CHR ''n'' \<notin> set ''0123456789''"
  by simp_all

lemma digits_not_special:
  assumes "set s \<subseteq> set ''0123456789''"
  shows "map lower_byte s \<noteq> ''inf''" "map lower_byte s \<noteq> ''infinity''"
    "map lower_byte s \<noteq> ''nan''"
proof -
  have l: "map lower_byte s = s" using assms by (rule digits_lower)
  have i: "CHR ''i'' \<notin> set s" "CHR ''n'' \<notin> set s" using assms letter_not_digit by blast+
  show "map lower_byte s \<noteq> ''inf''" using i(1) unfolding l by (cases s) auto
  show "map lower_byte s \<noteq> ''infinity''" using i(1) unfolding l by (cases s) auto
  show "map lower_byte s \<noteq> ''nan''" using i(2) unfolding l by (cases s) auto
qed


lemma special_body:
  "special v = Some f \<Longrightarrow>
   map lower_byte (fst (snd (split_sign v))) \<in> set [''inf'', ''infinity''] \<or>
   (\<not> snd (snd (split_sign v)) \<and> map lower_byte v = ''nan'')"
  unfolding special_def by (simp only: split: prod.splits if_splits) auto

lemma Atoi_digits:
  "Atoi v = Some n \<Longrightarrow> set (fst (snd (split_sign v))) \<subseteq> set ''0123456789''"
proof (cases v)
  case Nil
  assume "Atoi v = Some n"
  with Nil show ?thesis by (simp add: Atoi_def)
next
  case (Cons c cs)
  assume a: "Atoi v = Some n"
  show ?thesis
  proof (cases "c = CHR ''-'' \<or> c = CHR ''+''")
    case True
    with a Cons obtain k where "digits_val 0 cs = Some k"
      by (auto simp: Atoi_def Let_def split: if_splits option.splits)
    then have "set cs \<subseteq> set ''0123456789''" by (rule digits_val_Some)
    then show ?thesis using True Cons by auto
  next
    case False
    with a Cons obtain k where "digits_val 0 v = Some k"
      by (auto simp: Atoi_def Let_def split: if_splits option.splits)
    then have "set v \<subseteq> set ''0123456789''" by (rule digits_val_Some)
    then show ?thesis using False Cons by auto
  qed
qed

lemma unsigned_body: "\<not> snd (snd (split_sign v)) \<Longrightarrow> fst (snd (split_sign v)) = v"
  by (cases v) (auto split: if_splits)

lemma Atoi_not_special: "Atoi v = Some n \<Longrightarrow> special v = None"
proof (rule ccontr)
  assume a: "Atoi v = Some n" and "special v \<noteq> None"
  then obtain f where "special v = Some f" by auto
  from special_body[OF this] digits_not_special[OF Atoi_digits[OF a]] unsigned_body[of v]
  show False by auto
qed

lemma parseValue_special: "special v = Some f \<Longrightarrow> parseValue v = VFloat f"
proof -
  assume s: "special v = Some f"
  have "ParseBool v = None" using ParseBool_not_special[of v] s by (cases "ParseBool v") auto
  moreover have "Atoi v = None" using Atoi_not_special[of v] s by (cases "Atoi v") auto
  moreover have "ParseFloat v = Some f" using s by (simp add: ParseFloat_def)
  ultimately show ?thesis by (simp add: parseValue_def)
qed

lemma special_nonfinite: "special v = Some f \<Longrightarrow> float_literal f = None"
  unfolding special_def by (simp only: split: prod.splits if_splits) auto

lemma Marshal_parseValue_special:
  "special v \<noteq> None \<Longrightarrow> Marshal (parseValue v) = Inl UnsupportedValueError"
  using parseValue_special[of v] special_nonfinite[of v] by auto

lemma Marshal_parseValue_ok: "special v = None \<Longrightarrow> \<exists>j. Marshal (parseValue v) = Inr j"
proof -
  assume s: "special v = None"
  show ?thesis
  proof (cases "ParseBool v")
    case (Some b) then show ?thesis by (simp add: parseValue_def)
  next
    case None
    note b = this
    show ?thesis
    proof (cases "Atoi v")
      case (Some n) then show ?thesis using b by (simp add: parseValue_def)
    next
      case None
      note i = this
      show ?thesis
      proof (cases "ParseFloat v")
        case None then show ?thesis using b i by (simp add: parseValue_def)
      next
        case (Some f)
        then have "parse_number v = Some f" using s by (simp add: ParseFloat_def)
        then obtain neg m e where "f = Finite neg m e" using parse_number_Finite by blast
        then show ?thesis
          using b i Some float_literal_Finite[of neg m e] by (auto simp: parseValue_def)
      qed
    qed
  qed
qed

lemma assign_ok:
  assumes "\<forall>kv\<in>set m. \<exists>j. Marshal (snd kv) = Inr j" "\<exists>j. Marshal v = Inr j"
  shows "\<forall>kv\<in>set (assign m k v). \<exists>j. Marshal (snd kv) = Inr j"
  using assms set_assign[of m k v] by auto

lemma envVar_step_ok:
  assumes "\<forall>kv\<in>set m. \<exists>j. Marshal (snd kv) = Inr j"
    and "\<forall>name w. e = name @ CHR ''='' # w \<and> CHR ''='' \<notin> set name \<longrightarrow> special w = None"
  shows "\<forall>kv\<in>set (envVar_step U m e). \<exists>j. Marshal (snd kv) = Inr j"
proof (cases e rule: entry_cases)
  case (sep name w)
  with assms(2) have "special w = None" by blast
  then have "\<exists>j. Marshal (parseValue w) = Inr j" by (rule Marshal_parseValue_ok)
  with assms(1) show ?thesis
    unfolding sep(1) envVar_step_entry[OF sep(2)] by (rule assign_ok)
next
  case nosep
  with assms(1) show ?thesis by (simp add: envVar_step_none)
qed

lemma foldl_envVar_step_ok:
  assumes "\<forall>kv\<in>set m. \<exists>j. Marshal (snd kv) = Inr j"
    and "\<forall>name w. name @ CHR ''='' # w \<in> set env \<and> CHR ''='' \<notin> set name \<longrightarrow> special w = None"
  shows "\<forall>kv\<in>set (foldl (envVar_step U) m env). \<exists>j. Marshal (snd kv) = Inr j"
  using assms
proof (induction env arbitrary: m)
  case Nil then show ?case by simp
next
  case (Cons e env)
  have "\<forall>kv\<in>set (envVar_step U m e). \<exists>j. Marshal (snd kv) = Inr j"
    using Cons.prems by (intro envVar_step_ok) auto
  moreover have "\<forall>name w. name @ CHR ''='' # w \<in> set env \<and> CHR ''='' \<notin> set name \<longrightarrow> special w = None"
    using Cons.prems(2) by auto
  ultimately show ?case unfolding foldl_Cons by (rule Cons.IH)
qed

lemma loadArgs_loop_ok:
  assumes "\<forall>kv\<in>set m. \<exists>j. Marshal (snd kv) = Inr j"
    and "\<forall>pre x y post. args = pre @ (CHR ''-'' # CHR ''-'' # x) # y # post \<longrightarrow> special y = None"
  shows "\<forall>kv\<in>set (loadArgs_loop U args m). \<exists>j. Marshal (snd kv) = Inr j"
  using assms
proof (induction args arbitrary: m)
  case Nil then show ?case by simp
next
  case (Cons t ts)
  have rest: "\<forall>pre x y post. ts = pre @ (CHR ''-'' # CHR ''-'' # x) # y # post \<longrightarrow> special y = None"
  proof (intro allI impI)
    fix pre x y post
    assume "ts = pre @ (CHR ''-'' # CHR ''-'' # x) # y # post"
    then have "t # ts = (t # pre) @ (CHR ''-'' # CHR ''-'' # x) # y # post" by simp
    with Cons.prems(2) show "special y = None" by blast
  qed
  show ?case
  proof (cases t rule: flag_cases)
    case (flag x)
    have v: "\<exists>j. Marshal (if ts \<noteq> [] \<and> \<not> HasPrefix (hd ts) ''--'' then parseValue (hd ts)
                          else VBool True) = Inr j"
    proof (cases ts)
      case Nil then show ?thesis by simp
    next
      case (Cons y post)
      then have "t # ts = [] @ (CHR ''-'' # CHR ''-'' # x) # y # post" using flag(1) by simp
      with Cons.prems(2) have "special y = None" by blast
      then show ?thesis using Cons Marshal_parseValue_ok[of y] by auto
    qed
    show ?thesis
      unfolding flag(1) loadArgs_loop_flag
      by (rule Cons.IH[OF assign_ok[OF Cons.prems(1) v] rest])
  next
    case inert
    show ?thesis
      unfolding loadArgs_loop_inert[OF inert(1)] by (rule Cons.IH[OF Cons.prems(1) rest])
  qed
qed

text \<open>
  C4, amended.  An inferred value is serializable unless its token is a spelling of NaN
  or of an infinity (\<open>nan\<close>, or \<open>inf\<close> or \<open>infinity\<close> with an optional sign, in any
  letter case), and then it is not.  So when the overlay at hand is serializable, no
  value of an environment entry and no token that follows a \<open>--\<close> token is such a
  spelling, the marshal step of \<open>unmarshalToType\<close> succeeds on the overlay that the
  environment-variable and argument stages build.
\<close>

theorem Marshal_inferred_overlay:
  "(special v = None \<longrightarrow> (\<exists>j. Marshal (parseValue v) = Inr j)) \<and>
   (special v \<noteq> None \<longrightarrow> Marshal (parseValue v) = Inl UnsupportedValueError) \<and>
   ((\<exists>j. Marshal (VMap m) = Inr j) \<and>
    (\<forall>env name w. withEnvVars a = Some env \<and> name @ ''='' @ w \<in> set env \<and>
        CHR ''='' \<notin> set name \<longrightarrow> special w = None) \<and>
    (\<forall>pre x y post. withArgs a = Some (pre @ [''--'' @ x, y] @ post) \<longrightarrow> special y = None) \<longrightarrow>
    (\<exists>m1 m2 j. loadEnvVars U a m = Inr m1 \<and> loadArgs U a m1 = Inr m2 \<and>
        Marshal (VMap m2) = Inr j))"
proof -
  have 1: "special v = None \<longrightarrow> (\<exists>j. Marshal (parseValue v) = Inr j)"
    using Marshal_parseValue_ok by blast
  have 2: "special v \<noteq> None \<longrightarrow> Marshal (parseValue v) = Inl UnsupportedValueError"
    using Marshal_parseValue_special by blast
  have 3: "(\<exists>j. Marshal (VMap m) = Inr j) \<and>
    (\<forall>env name w. withEnvVars a = Some env \<and> name @ ''='' @ w \<in> set env \<and>
        CHR ''='' \<notin> set name \<longrightarrow> special w = None) \<and>
    (\<forall>pre x y post. withArgs a = Some (pre @ [''--'' @ x, y] @ post) \<longrightarrow> special y = None) \<longrightarrow>
    (\<exists>m1 m2 j. loadEnvVars U a m = Inr m1 \<and> loadArgs U a m1 = Inr m2 \<and>
        Marshal (VMap m2) = Inr j)"
  proof (intro impI, elim conjE)
    assume m: "\<exists>j. Marshal (VMap m) = Inr j"
      and env: "\<forall>env name w. withEnvVars a = Some env \<and> name @ ''='' @ w \<in> set env \<and>
        CHR ''='' \<notin> set name \<longrightarrow> special w = None"
      and args: "\<forall>pre x y post. withArgs a = Some (pre @ [''--'' @ x, y] @ post) \<longrightarrow> special y = None"
    from m have ok0: "\<forall>kv\<in>set m. \<exists>j. Marshal (snd kv) = Inr j"
      by (simp only: Marshal_VMap_ok)
    obtain m1 where m1: "loadEnvVars U a m = Inr m1" "\<forall>kv\<in>set m1. \<exists>j. Marshal (snd kv) = Inr j"
    proof (cases "withEnvVars a")
      case None
      then have "loadEnvVars U a m = Inr m" by (simp add: loadEnvVars_def)
      with ok0 that show ?thesis by blast
    next
      case (Some e)
      then have l: "loadEnvVars U a m = Inr (foldl (envVar_step U) m e)" by (simp add: loadEnvVars_def)
      have "\<forall>name w. name @ CHR ''='' # w \<in> set e \<and> CHR ''='' \<notin> set name \<longrightarrow> special w = None"
        using env Some by simp
      from foldl_envVar_step_ok[OF ok0 this] l that show ?thesis by blast
    qed
    obtain m2 where m2: "loadArgs U a m1 = Inr m2" "\<forall>kv\<in>set m2. \<exists>j. Marshal (snd kv) = Inr j"
    proof (cases "withArgs a")
      case None
      then have "loadArgs U a m1 = Inr m1" by (simp add: loadArgs_def)
      with m1(2) that show ?thesis by blast
    next
      case (Some ts)
      then have l: "loadArgs U a m1 = Inr (loadArgs_loop U ts m1)" by (simp add: loadArgs_def)
      have "\<forall>pre x y post. ts = pre @ (CHR ''-'' # CHR ''-'' # x) # y # post \<longrightarrow> special y = None"
        using args Some by simp
      from loadArgs_loop_ok[OF m1(2) this] l that show ?thesis by blast
    qed
    from m2(2) have "\<exists>j. Marshal (VMap m2) = Inr j" by (simp only: Marshal_VMap_ok)
    with m1(1) m2(1) show "\<exists>m1 m2 j. loadEnvVars U a m = Inr m1 \<and> loadArgs U a m1 = Inr m2 \<and>
        Marshal (VMap m2) = Inr j" by blast
  qed
  from 1 2 3 show ?thesis by (intro conjI)
qed

text \<open>
  C4, as stated, fails: the variable \<open>RATIO=NaN\<close> stores a NaN and the arguments
  \<open>--limit -Inf\<close> store an infinity, \<open>json.Marshal\<close> rejects both, and \<open>Load\<close>
  returns the error of the projector.
\<close>

theorem Marshal_fails_on_NaN:
  "loadEnvVars example_tables (WithEnvVars (Some [''RATIO=NaN'']) New) [] = Inr [(''ratio'', VFloat NaN)] \<and>
   Marshal (VMap [(''ratio'', VFloat NaN)]) = Inl UnsupportedValueError \<and>
   loadArgs example_tables (WithArgs (Some [''--limit'', ''-Inf'']) New) [] = Inr [(''limit'', VFloat (Inf True))] \<and>
   Marshal (VMap [(''limit'', VFloat (Inf True))]) = Inl UnsupportedValueError \<and>
   Load example_tables no_files TestConfig
       (WithEnvVars (Some [''RATIO=NaN'']) (WithConfigDirectory ''/etc/app'' New)) =
     Inl (UnmarshalConfig, UnsupportedValueError)"
proof -
  have 1: "loadEnvVars example_tables (WithEnvVars (Some [''RATIO=NaN'']) New) [] = Inr [(''ratio'', VFloat NaN)]"
    by code_simp
  have 2: "Marshal (VMap [(''ratio'', VFloat NaN)]) = Inl UnsupportedValueError"
    by code_simp
  have 3: "loadArgs example_tables (WithArgs (Some [''--limit'', ''-Inf'']) New) [] =
             Inr [(''limit'', VFloat (Inf True))]"
    by code_simp
  have 4: "Marshal (VMap [(''limit'', VFloat (Inf True))]) = Inl UnsupportedValueError"
    by code_simp
  have 5: "Load example_tables no_files TestConfig
       (WithEnvVars (Some [''RATIO=NaN'']) (WithConfigDirectory ''/etc/app'' New)) =
     Inl (UnmarshalConfig, UnsupportedValueError)"
    by code_simp
  from 1 2 3 4 5 show ?thesis by (intro conjI)
qed

theorem Marshal_inferred_overlay_witness:
  "special ''3000'' = None \<and> (\<exists>j. Marshal (parseValue ''3000'') = Inr j) \<and>
   special ''NaN'' \<noteq> None \<and> Marshal (parseValue ''NaN'') = Inl UnsupportedValueError \<and>
   (\<exists>j. Marshal (VMap ([] :: overlay)) = Inr j) \<and>
   withEnvVars priority_settings = Some [''PORT=9000''] \<and> special ''9000'' = None \<and>
   withArgs priority_settings = Some [''--port'', ''3000''] \<and>
   (\<exists>m1 m2 j. loadEnvVars example_tables priority_settings [] = Inr m1 \<and> loadArgs example_tables priority_settings m1 = Inr m2 \<and>
       Marshal (VMap m2) = Inr j)"
proof -
  have s1: "special ''3000'' = None" by code_simp
  have s2: "special ''NaN'' \<noteq> None" by code_simp
  have s3: "special ''9000'' = None" by code_simp
  have e: "withEnvVars priority_settings = Some [''PORT=9000'']"
    by (simp add: priority_settings_def WithArgs_def WithEnvVars_def)
  have r: "withArgs priority_settings = Some [''--port'', ''3000'']"
    by (simp add: priority_settings_def WithArgs_def)
  have m: "\<exists>j. Marshal (VMap ([] :: overlay)) = Inr j" by simp
  have a: "\<exists>j. Marshal (parseValue ''3000'') = Inr j"
    using Marshal_inferred_overlay[THEN conjunct1, of "''3000''"] s1 by (rule mp)
  have b: "Marshal (parseValue ''NaN'') = Inl UnsupportedValueError"
    using Marshal_inferred_overlay[THEN conjunct2, THEN conjunct1, of "''NaN''"] s2 by (rule mp)
  have he: "\<forall>env name w. withEnvVars priority_settings = Some env \<and> name @ ''='' @ w \<in> set env \<and>
        CHR ''='' \<notin> set name \<longrightarrow> special w = None"
  proof (intro allI impI, elim conjE)
    fix env name w
    assume "withEnvVars priority_settings = Some env" "name @ ''='' @ w \<in> set env"
      "CHR ''='' \<notin> set name"
    with e have "name @ CHR ''='' # w = ''PORT'' @ CHR ''='' # ''9000''" "CHR ''='' \<notin> set name"
      by simp_all
    then have "w = ''9000''" using entry_unique[of name w "''PORT''" "''9000''"] by simp
    with s3 show "special w = None" by simp
  qed
  have hr: "\<forall>pre x y post. withArgs priority_settings = Some (pre @ [''--'' @ x, y] @ post) \<longrightarrow>
        special y = None"
  proof (intro allI impI)
    fix pre x y post
    assume "withArgs priority_settings = Some (pre @ [''--'' @ x, y] @ post)"
    with r have q: "[''--port'', ''3000''] = pre @ [''--'' @ x, y] @ post" by simp
    then have "length [''--port'', ''3000''] = length (pre @ [''--'' @ x, y] @ post)"
      by (rule arg_cong)
    then have "pre = []" by simp
    with q have "y = ''3000''" by simp
    with s1 show "special y = None" by simp
  qed
  have c: "\<exists>m1 m2 j. loadEnvVars example_tables priority_settings [] = Inr m1 \<and>
       loadArgs example_tables priority_settings m1 = Inr m2 \<and> Marshal (VMap m2) = Inr j"
    using Marshal_inferred_overlay[THEN conjunct2, THEN conjunct2, of "[]" priority_settings]
      m he hr by blast
  from s1 a s2 b m e s3 r c show ?thesis by (intro conjI)
qed

subsection \<open>Matching keys to the fields of the schema\<close>

lemma find_fst:
  "find (\<lambda>f. Q (fst f)) T = Some f \<Longrightarrow> map_of T (fst f) = Some (snd f)"
proof (induction T)
  case Nil then show ?case by simp
next
  case (Cons g T)
  show ?case
  proof (cases "Q (fst g)")
    case True with Cons.prems show ?thesis by simp
  next
    case False
    with Cons.prems have f: "find (\<lambda>f. Q (fst f)) T = Some f" by simp
    then have "Q (fst f)" by (auto simp: find_Some_iff)
    with False have "fst g \<noteq> fst f" by auto
    with Cons.IH[OF f] show ?thesis by (cases g) simp
  qed
qed

lemma find_field_first:
  "find_field U T key = Some f \<longleftrightarrow>
     (\<exists>i<length T. fst (T ! i) = key \<and> f = T ! i \<and> (\<forall>j<i. fst (T ! j) \<noteq> key)) \<or>
     ((\<forall>g\<in>set T. fst g \<noteq> key) \<and>
      (\<exists>i<length T. foldName U (fst (T ! i)) = foldName U key \<and> f = T ! i \<and>
         (\<forall>j<i. foldName U (fst (T ! j)) \<noteq> foldName U key)))"
proof -
  have A: "find (\<lambda>f. fst f = key) T = Some f \<longleftrightarrow>
      (\<exists>i<length T. fst (T ! i) = key \<and> f = T ! i \<and> (\<forall>j<i. fst (T ! j) \<noteq> key))"
    by (simp add: find_Some_iff)
  have B: "find (\<lambda>f. foldName U (fst f) = foldName U key) T = Some f \<longleftrightarrow>
      (\<exists>i<length T. foldName U (fst (T ! i)) = foldName U key \<and> f = T ! i \<and>
         (\<forall>j<i. foldName U (fst (T ! j)) \<noteq> foldName U key))"
    by (simp add: find_Some_iff)
  have C: "(\<forall>g\<in>set T. fst g \<noteq> key) \<longleftrightarrow> find (\<lambda>f. fst f = key) T = None"
    by (auto simp: find_None_iff)
  show ?thesis unfolding A[symmetric] B[symmetric] C
    by (cases "find (\<lambda>f. fst f = key) T") (simp_all add: find_field_def)
qed

lemma find_field_None_iff:
  "find_field U T key = None \<longleftrightarrow> (\<forall>g\<in>set T. foldName U (fst g) \<noteq> foldName U key)"
proof (cases "find (\<lambda>f. fst f = key) T")
  case None
  then have "find_field U T key = find (\<lambda>f. foldName U (fst f) = foldName U key) T"
    by (simp add: find_field_def)
  then show ?thesis by (auto simp: find_None_iff)
next
  case (Some g)
  then have "g \<in> set T \<and> fst g = key" by (auto simp: find_Some_iff)
  then show ?thesis using Some by (auto simp: find_field_def)
qed

lemma find_field_in: "find_field U T key = Some f \<Longrightarrow> f \<in> set T"
  by (auto simp: find_field_def find_Some_iff split: option.splits)

lemma find_field_tag: "find_field U T key = Some f \<Longrightarrow> map_of T (fst f) = Some (snd f)"
  using find_fst[of "\<lambda>n. n = key" T f] find_fst[of "\<lambda>n. foldName U n = foldName U key" T f]
  by (auto simp: find_field_def split: option.splits)

lemma zero_instance_field: "map_of T tag = Some ty \<Longrightarrow> map_of (zero_instance T) tag = Some (zero ty)"
  by (induction T) (auto simp: zero_instance_def split: if_splits)

lemma decode_field_again: "decode_field ty j cur = Inr v \<Longrightarrow> decode_field ty j v = Inr v"
  by (induction ty j cur rule: decode_field.induct) (auto split: option.splits)

lemma decode_members_other:
  assumes "map_of T (fst f) = Some (snd f)"
    and "\<forall>kv\<in>set kvs. find_field U T (fst kv) \<noteq> Some f"
    and "decode_members U T kvs inst = Inr r"
  shows "map_of r (fst f) = map_of inst (fst f)"
  using assms(2,3)
proof (induction kvs arbitrary: inst)
  case Nil then show ?case by simp
next
  case (Cons kv kvs)
  show ?case
  proof (cases "find_field U T (fst kv)")
    case None with Cons show ?thesis by simp
  next
    case (Some g)
    with Cons.prems obtain v where v: "decode_field (snd g) (snd kv) (the (map_of inst (fst g))) = Inr v"
      and d: "decode_members U T kvs (assign inst (fst g) v) = Inr r"
      by (auto split: sum.splits)
    from Some Cons.prems(1) have "g \<noteq> f" by auto
    with find_field_tag[OF Some] assms(1) have "fst g \<noteq> fst f" by (cases g; cases f) auto
    with Cons.IH[OF _ d] Cons.prems(1) show ?thesis by (simp add: map_of_assign)
  qed
qed

lemma decode_members_field:
  assumes "map_of T (fst f) = Some (snd f)"
    and "\<forall>kv\<in>set kvs. find_field U T (fst kv) = Some f \<longrightarrow> snd kv = j"
    and "\<exists>kv\<in>set kvs. find_field U T (fst kv) = Some f"
    and "map_of inst (fst f) = Some cur"
    and "decode_members U T kvs inst = Inr r"
  shows "\<exists>v. decode_field (snd f) j cur = Inr v \<and> map_of r (fst f) = Some v"
  using assms(2-5)
proof (induction kvs arbitrary: inst cur)
  case Nil then show ?case by simp
next
  case (Cons kv kvs)
  show ?case
  proof (cases "find_field U T (fst kv)")
    case None with Cons.IH[of inst cur] Cons.prems show ?thesis by auto
  next
    case (Some g)
    with Cons.prems obtain v where v: "decode_field (snd g) (snd kv) (the (map_of inst (fst g))) = Inr v"
      and d: "decode_members U T kvs (assign inst (fst g) v) = Inr r"
      by (auto split: sum.splits)
    show ?thesis
    proof (cases "g = f")
      case False
      with find_field_tag[OF Some] assms(1) have ne: "fst g \<noteq> fst f" by (cases g; cases f) auto
      then have m: "map_of (assign inst (fst g) v) (fst f) = Some cur"
        using Cons.prems(3) by (simp add: map_of_assign)
      from Cons.prems(2) Some False have ex: "\<exists>kv\<in>set kvs. find_field U T (fst kv) = Some f" by auto
      from Cons.IH[OF _ ex m d] Cons.prems(1) show ?thesis by simp
    next
      case True
      with Some Cons.prems(1) have j: "snd kv = j" by simp
      from v True j Cons.prems(3) have v': "decode_field (snd f) j cur = Inr v" by simp
      have m: "map_of (assign inst (fst g) v) (fst f) = Some v" using True by (simp add: map_of_assign)
      show ?thesis
      proof (cases "\<exists>kv\<in>set kvs. find_field U T (fst kv) = Some f")
        case True
        from Cons.IH[OF _ True m d] Cons.prems(1)
        obtain v2 where "decode_field (snd f) j v = Inr v2" "map_of r (fst f) = Some v2" by auto
        with decode_field_again[OF v'] v' show ?thesis by simp
      next
        case False
        with decode_members_other[OF assms(1) _ d] m v' show ?thesis by simp
      qed
    qed
  qed
qed


lemma Marshal_members_in:
  "Marshal_members m = Inr kvs \<Longrightarrow> (k, v) \<in> set m \<Longrightarrow> \<exists>j. Marshal v = Inr j \<and> (k, j) \<in> set kvs"
  by (induction m arbitrary: kvs) (auto split: sum.splits)

lemma Marshal_members_from:
  "Marshal_members m = Inr kvs \<Longrightarrow> (k, j) \<in> set kvs \<Longrightarrow> \<exists>v. (k, v) \<in> set m \<and> Marshal v = Inr j"
proof (induction m arbitrary: kvs)
  case Nil then show ?case by simp
next
  case (Cons kv m)
  then obtain j0 kvs0 where s: "Marshal (snd kv) = Inr j0" "Marshal_members m = Inr kvs0"
    "kvs = (fst kv, j0) # kvs0"
    by (auto split: sum.splits)
  show ?case
  proof (cases "(k, j) = (fst kv, j0)")
    case True
    then have "(k, snd kv) \<in> set (kv # m)" by (cases kv) simp
    with s(1) True show ?thesis by blast
  next
    case False
    with Cons.prems(2) s(3) have "(k, j) \<in> set kvs0" by auto
    from Cons.IH[OF s(2) this] show ?thesis by auto
  qed
qed

lemma set_insert_sorted: "set (insert_sorted kv xs) = insert kv (set xs)"
  by (induction xs) auto

lemma set_sort_keys: "set (sort_keys m) = set m"
  by (induction m) (simp_all add: sort_keys_def set_insert_sorted)

lemma unmarshalToType_Inr:
  assumes "unmarshalToType U T m = Inr r"
  obtains kvs where "Marshal_members m = Inr kvs"
    "decode_members U T (map (\<lambda>kv. (valid_utf8 (fst kv), snd kv)) (sort_keys kvs)) (zero_instance T) = Inr r"
  using assms by (auto simp: unmarshalToType_def split: sum.splits)

lemma unmarshalToType_populates:
  assumes r: "unmarshalToType U T m = Inr r"
    and d: "distinct (map fst m)"
    and k: "map_of m k = Some val"
    and f: "find_field U T (valid_utf8 k) = Some (tag, ty)"
    and o: "list_all (\<lambda>kv. fst kv = k \<or> find_field U T (valid_utf8 (fst kv)) \<noteq> Some (tag, ty)) m"
  shows "\<exists>j v. Marshal val = Inr j \<and> decode_field ty j (zero ty) = Inr v \<and> map_of r tag = Some v"
proof -
  from r obtain kvs where kvs: "Marshal_members m = Inr kvs"
    and dec: "decode_members U T (map (\<lambda>kv. (valid_utf8 (fst kv), snd kv)) (sort_keys kvs))
                (zero_instance T) = Inr r"
    by (rule unmarshalToType_Inr)
  let ?L = "map (\<lambda>kv. (valid_utf8 (fst kv), snd kv)) (sort_keys kvs)"
  from k have km: "(k, val) \<in> set m" by (rule map_of_SomeD)
  from Marshal_members_in[OF kvs km] obtain j where j: "Marshal val = Inr j" "(k, j) \<in> set kvs"
    by blast
  have tagT: "map_of T (fst (tag, ty)) = Some (snd (tag, ty))" by (rule find_field_tag[OF f])
  have all: "\<forall>kv\<in>set ?L. find_field U T (fst kv) = Some (tag, ty) \<longrightarrow> snd kv = j"
  proof (intro ballI impI)
    fix kv assume kv: "kv \<in> set ?L" and m: "find_field U T (fst kv) = Some (tag, ty)"
    from kv obtain k' j' where k': "(k', j') \<in> set kvs" "kv = (valid_utf8 k', j')"
      by (auto simp: set_sort_keys)
    from Marshal_members_from[OF kvs k'(1)] obtain v' where v': "(k', v') \<in> set m" "Marshal v' = Inr j'"
      by blast
    from o v'(1) m k'(2) have "k' = k" by (auto simp: list_all_iff)
    with v'(1) d k have "v' = val" by (metis map_of_is_SomeI option.inject)
    with v'(2) j(1) k'(2) show "snd kv = j" by simp
  qed
  have ex: "\<exists>kv\<in>set ?L. find_field U T (fst kv) = Some (tag, ty)"
    using j(2) f by (force simp: set_sort_keys)
  have z: "map_of (zero_instance T) (fst (tag, ty)) = Some (zero ty)"
    using tagT by (simp add: zero_instance_field)
  from decode_members_field[OF tagT all ex z dec] j(1) show ?thesis by auto
qed

lemma unmarshalToType_unmatched:
  assumes r: "unmarshalToType U T m = Inr r"
    and t: "map_of T tag = Some ty"
    and o: "list_all (\<lambda>kv. find_field U T (valid_utf8 (fst kv)) \<noteq> Some (tag, ty)) m"
  shows "map_of r tag = Some (zero ty)"
proof -
  from r obtain kvs where kvs: "Marshal_members m = Inr kvs"
    and dec: "decode_members U T (map (\<lambda>kv. (valid_utf8 (fst kv), snd kv)) (sort_keys kvs))
                (zero_instance T) = Inr r"
    by (rule unmarshalToType_Inr)
  let ?L = "map (\<lambda>kv. (valid_utf8 (fst kv), snd kv)) (sort_keys kvs)"
  have tagT: "map_of T (fst (tag, ty)) = Some (snd (tag, ty))" using t by simp
  have all: "\<forall>kv\<in>set ?L. find_field U T (fst kv) \<noteq> Some (tag, ty)"
  proof
    fix kv assume kv: "kv \<in> set ?L"
    then obtain k' j' where k': "(k', j') \<in> set kvs" "kv = (valid_utf8 k', j')"
      by (auto simp: set_sort_keys)
    from Marshal_members_from[OF kvs k'(1)] obtain v' where v': "(k', v') \<in> set m" by blast
    with o k'(2) show "find_field U T (fst kv) \<noteq> Some (tag, ty)" by (auto simp: list_all_iff)
  qed
  from decode_members_other[OF tagT all dec] t show ?thesis by (simp add: zero_instance_field)
qed

lemma unmarshalToType_single:
  "unmarshalToType U T [(k, val)] =
     (case Marshal val of
        Inl e \<Rightarrow> Inl e
      | Inr j \<Rightarrow>
          (case find_field U T (valid_utf8 k) of
             None \<Rightarrow> Inr (zero_instance T)
           | Some f \<Rightarrow>
               (case decode_field (snd f) j (zero (snd f)) of
                  Inl e \<Rightarrow> Inl e
                | Inr v \<Rightarrow> Inr (assign (zero_instance T) (fst f) v))))"
proof (cases "find_field U T (valid_utf8 k)")
  case None
  then show ?thesis by (simp add: unmarshalToType_def sort_keys_def split: sum.splits)
next
  case (Some f)
  from find_field_tag[OF Some] have "map_of (zero_instance T) (fst f) = Some (zero (snd f))"
    by (rule zero_instance_field)
  with Some show ?thesis by (simp add: unmarshalToType_def sort_keys_def split: sum.splits)
qed


lemma AppendRune_ascii: "of_char c < (128 :: int) \<Longrightarrow> AppendRune (of_char c) = [c]"
  using of_char_nonneg[of c] by (simp add: AppendRune_def)

lemma valid_utf8_ascii: "\<forall>c\<in>set s. of_char c < (128 :: int) \<Longrightarrow> valid_utf8 s = s"
  by (induction s) (simp_all add: valid_utf8_def runes_ascii AppendRune_ascii)

lemma of_char_lowered:
  "65 \<le> (of_char c :: int) \<Longrightarrow> (of_char c :: int) \<le> 90 \<Longrightarrow>
     (of_char (char_of (of_char c + 32 :: int)) :: int) = of_char c + 32"
  by (simp add: of_char_of)

lemma ToLower_ascii_is_ascii:
  assumes "\<forall>c\<in>set s. of_char c < (128 :: int)"
  shows "\<forall>c\<in>set (ToLower U s). of_char c < (128 :: int)"
  using assms by (auto simp: ToLower_ascii[OF assms] of_char_lowered)

lemma foldName_ascii:
  assumes "\<forall>c\<in>set s. of_char c < (128 :: int)"
  shows "foldName U s =
           map (\<lambda>c. if 97 \<le> (of_char c :: int) \<and> (of_char c :: int) \<le> 122
                     then char_of (of_char c - 32 :: int) else c) s"
  using assms
proof (induction s)
  case Nil show ?case by (simp add: foldName_def)
next
  case (Cons c s)
  then have c: "of_char c < (128 :: int)" by simp
  have "foldName U (c # s) = foldName U [c] @ foldName U s"
    using c by (simp add: foldName_def runes_ascii_Cons)
  moreover have "foldName U [c] =
      [if 97 \<le> (of_char c :: int) \<and> (of_char c :: int) \<le> 122 then char_of (of_char c - 32 :: int) else c]"
    using c of_char_nonneg[of c]
    by (simp add: foldName_def runes_ascii_Cons fold_rune_def AppendRune_def)
  ultimately show ?case using Cons by simp
qed

lemma foldName_ToLower_ascii:
  assumes "\<forall>c\<in>set s. of_char c < (128 :: int)"
  shows "foldName U (ToLower U s) = foldName U s"
proof -
  let ?f = "\<lambda>c. if 65 \<le> (of_char c :: int) \<and> (of_char c :: int) \<le> 90
                 then char_of (of_char c + 32 :: int) else c"
  let ?g = "\<lambda>c. if 97 \<le> (of_char c :: int) \<and> (of_char c :: int) \<le> 122
                 then char_of (of_char c - 32 :: int) else c"
  have p: "\<And>c. ?g (?f c) = ?g c"
    by (simp add: of_char_lowered)
  have "foldName U (ToLower U s) = map ?g (ToLower U s)"
    by (rule foldName_ascii[OF ToLower_ascii_is_ascii[OF assms]])
  also have "\<dots> = map ?g (map ?f s)" by (simp only: ToLower_ascii[OF assms])
  also have "\<dots> = map (\<lambda>c. ?g (?f c)) s" by (simp only: map_map comp_def)
  also have "\<dots> = map ?g s" by (simp only: p)
  also have "\<dots> = foldName U s" by (rule foldName_ascii[OF assms, symmetric])
  finally show ?thesis .
qed

lemma Load_single_env:
  assumes "getConfigDirectory w a = Inr dir"
    and "ReadFile w (filepath_Join dir ''config.json'') = NotExist"
    and "withEnvironment a = None" and "withArgs a = None"
    and "withEnvVars a = Some [name @ ''='' @ v]" and "CHR ''='' \<notin> set name"
  shows "Load U w T a =
           (case unmarshalToType U T [(ToLower U name, parseValue v)] of
              Inl err \<Rightarrow> Inl (UnmarshalConfig, err) | Inr result \<Rightarrow> Inr result)"
proof -
  have b: "loadConfigFile w (filepath_Join dir ''config.json'') [] = Inr []"
    using assms(2) by (simp add: loadConfigFile_def)
  have e: "loadEnvConfig w a dir [] = Inr []" using assms(3) by (simp add: loadEnvConfig_def)
  have "envVar_step U [] (name @ CHR ''='' # v) = [(ToLower U name, parseValue v)]"
    using assms(6) by (simp add: envVar_step_entry)
  then have v: "loadEnvVars U a [] = Inr [(ToLower U name, parseValue v)]"
    using assms(5) by (simp add: loadEnvVars_def)
  have r: "loadArgs U a [(ToLower U name, parseValue v)] = Inr [(ToLower U name, parseValue v)]"
    using assms(4) by (simp add: loadArgs_def)
  show ?thesis
    by (simp add: Load_def assms(1) b e v r split: sum.splits)
qed

lemma Load_single_flag:
  assumes "getConfigDirectory w a = Inr dir"
    and "ReadFile w (filepath_Join dir ''config.json'') = NotExist"
    and "withEnvironment a = None" and "withEnvVars a = None"
    and "withArgs a = Some [''--'' @ name, v]" and "\<not> HasPrefix v ''--''"
  shows "Load U w T a =
           (case unmarshalToType U T [(ToLower U name, parseValue v)] of
              Inl err \<Rightarrow> Inl (UnmarshalConfig, err) | Inr result \<Rightarrow> Inr result)"
proof -
  have b: "loadConfigFile w (filepath_Join dir ''config.json'') [] = Inr []"
    using assms(2) by (simp add: loadConfigFile_def)
  have e: "loadEnvConfig w a dir [] = Inr []" using assms(3) by (simp add: loadEnvConfig_def)
  have v: "loadEnvVars U a [] = Inr []" using assms(4) by (simp add: loadEnvVars_def)
  have "loadArgs_loop U [CHR ''-'' # CHR ''-'' # name, v] [] = [(ToLower U name, parseValue v)]"
    using assms(6) by (simp add: TrimPrefix_flag)
  then have r: "loadArgs U a [] = Inr [(ToLower U name, parseValue v)]"
    using assms(5) by (simp add: loadArgs_def)
  show ?thesis
    by (simp add: Load_def assms(1) b e v r split: sum.splits)
qed

text \<open>
  C3, amended.  The projector matches an overlay key to the field whose tag is exactly
  the key when there is one, and otherwise to the first field, in the order of the
  struct, whose tag has the folded name of the key; a key whose folded name is the one of
  no tag matches no field.  Lower-casing a name of ASCII bytes leaves its folded name as
  it is, so the key that the lower-casing stages make of a name is matched like the name
  itself.  When the projection succeeds, the field that a key of the overlay is matched
  to holds the decoded value of that key, if no other key is matched to the same field,
  and a field that no key is matched to holds its zero value.  With no file and the
  single variable \<open>NAME=VALUE\<close>, or the single pair of arguments \<open>--NAME VALUE\<close>,
  \<open>Load\<close> returns the zero value of the schema when the lower-cased name matches no
  field, and otherwise the zero value with the matched field set to the decoded value,
  or the error of decoding the value into that field.
\<close>

theorem projection_ignores_case:
  "(find_field U T key = Some f \<longleftrightarrow>
      (\<exists>i<length T. fst (T ! i) = key \<and> f = T ! i \<and> (\<forall>j<i. fst (T ! j) \<noteq> key)) \<or>
      ((\<forall>g\<in>set T. fst g \<noteq> key) \<and>
       (\<exists>i<length T. foldName U (fst (T ! i)) = foldName U key \<and> f = T ! i \<and>
          (\<forall>j<i. foldName U (fst (T ! j)) \<noteq> foldName U key)))) \<and>
   (find_field U T key = None \<longleftrightarrow> (\<forall>g\<in>set T. foldName U (fst g) \<noteq> foldName U key)) \<and>
   (list_all (\<lambda>c. of_char c < (128 :: int)) s \<longrightarrow>
      valid_utf8 (ToLower U s) = ToLower U s \<and> foldName U (ToLower U s) = foldName U s) \<and>
   (unmarshalToType U T m = Inr r \<and> distinct (map fst m) \<and> map_of m k = Some val \<and>
    find_field U T (valid_utf8 k) = Some (tag, ty) \<and>
    list_all (\<lambda>kv. fst kv = k \<or> find_field U T (valid_utf8 (fst kv)) \<noteq> Some (tag, ty)) m \<longrightarrow>
      (\<exists>j v. Marshal val = Inr j \<and> decode_field ty j (zero ty) = Inr v \<and> map_of r tag = Some v)) \<and>
   (unmarshalToType U T m = Inr r \<and> map_of T tag = Some ty \<and>
    list_all (\<lambda>kv. find_field U T (valid_utf8 (fst kv)) \<noteq> Some (tag, ty)) m \<longrightarrow>
      map_of r tag = Some (zero ty)) \<and>
   (getConfigDirectory w a = Inr dir \<and>
    ReadFile w (filepath_Join dir ''config.json'') = NotExist \<and>
    withEnvironment a = None \<and> withArgs a = None \<and>
    withEnvVars a = Some [NAME @ ''='' @ VALUE] \<and> CHR ''='' \<notin> set NAME \<and>
    Marshal (parseValue VALUE) = Inr jv \<longrightarrow>
      (find_field U T (valid_utf8 (ToLower U NAME)) = None \<longrightarrow>
         Load U w T a = Inr (zero_instance T)) \<and>
      (find_field U T (valid_utf8 (ToLower U NAME)) = Some (tag, ty) \<longrightarrow>
         Load U w T a =
           (case decode_field ty jv (zero ty) of
              Inl e \<Rightarrow> Inl (UnmarshalConfig, e)
            | Inr v \<Rightarrow> Inr (assign (zero_instance T) tag v)))) \<and>
   (getConfigDirectory w a' = Inr dir \<and>
    ReadFile w (filepath_Join dir ''config.json'') = NotExist \<and>
    withEnvironment a' = None \<and> withEnvVars a' = None \<and>
    withArgs a' = Some [''--'' @ NAME, VALUE] \<and> \<not> HasPrefix VALUE ''--'' \<and>
    Marshal (parseValue VALUE) = Inr jv \<longrightarrow>
      (find_field U T (valid_utf8 (ToLower U NAME)) = None \<longrightarrow>
         Load U w T a' = Inr (zero_instance T)) \<and>
      (find_field U T (valid_utf8 (ToLower U NAME)) = Some (tag, ty) \<longrightarrow>
         Load U w T a' =
           (case decode_field ty jv (zero ty) of
              Inl e \<Rightarrow> Inl (UnmarshalConfig, e)
            | Inr v \<Rightarrow> Inr (assign (zero_instance T) tag v))))"
proof -
  have first: "(find_field U T key = Some f \<longleftrightarrow>
      (\<exists>i<length T. fst (T ! i) = key \<and> f = T ! i \<and> (\<forall>j<i. fst (T ! j) \<noteq> key)) \<or>
      ((\<forall>g\<in>set T. fst g \<noteq> key) \<and>
       (\<exists>i<length T. foldName U (fst (T ! i)) = foldName U key \<and> f = T ! i \<and>
          (\<forall>j<i. foldName U (fst (T ! j)) \<noteq> foldName U key))))"
    by (rule find_field_first)
  have none: "(find_field U T key = None \<longleftrightarrow> (\<forall>g\<in>set T. foldName U (fst g) \<noteq> foldName U key))"
    by (rule find_field_None_iff)
  have ascii: "(list_all (\<lambda>c. of_char c < (128 :: int)) s \<longrightarrow>
      valid_utf8 (ToLower U s) = ToLower U s \<and> foldName U (ToLower U s) = foldName U s)"
    using valid_utf8_ascii[OF ToLower_ascii_is_ascii, of s U] foldName_ToLower_ascii[of s U]
    unfolding list_all_iff by blast
  have pop: "(unmarshalToType U T m = Inr r \<and> distinct (map fst m) \<and> map_of m k = Some val \<and>
    find_field U T (valid_utf8 k) = Some (tag, ty) \<and>
    list_all (\<lambda>kv. fst kv = k \<or> find_field U T (valid_utf8 (fst kv)) \<noteq> Some (tag, ty)) m \<longrightarrow>
      (\<exists>j v. Marshal val = Inr j \<and> decode_field ty j (zero ty) = Inr v \<and> map_of r tag = Some v))"
    using unmarshalToType_populates[of U T m r k val tag ty] by blast
  have unm: "(unmarshalToType U T m = Inr r \<and> map_of T tag = Some ty \<and>
    list_all (\<lambda>kv. find_field U T (valid_utf8 (fst kv)) \<noteq> Some (tag, ty)) m \<longrightarrow>
      map_of r tag = Some (zero ty))"
    using unmarshalToType_unmatched[of U T m r tag ty] by blast
  have env: "(getConfigDirectory w a = Inr dir \<and>
    ReadFile w (filepath_Join dir ''config.json'') = NotExist \<and>
    withEnvironment a = None \<and> withArgs a = None \<and>
    withEnvVars a = Some [NAME @ ''='' @ VALUE] \<and> CHR ''='' \<notin> set NAME \<and>
    Marshal (parseValue VALUE) = Inr jv \<longrightarrow>
      (find_field U T (valid_utf8 (ToLower U NAME)) = None \<longrightarrow>
         Load U w T a = Inr (zero_instance T)) \<and>
      (find_field U T (valid_utf8 (ToLower U NAME)) = Some (tag, ty) \<longrightarrow>
         Load U w T a =
           (case decode_field ty jv (zero ty) of
              Inl e \<Rightarrow> Inl (UnmarshalConfig, e)
            | Inr v \<Rightarrow> Inr (assign (zero_instance T) tag v))))"
  proof (intro impI, elim conjE)
    assume h: "getConfigDirectory w a = Inr dir"
      "ReadFile w (filepath_Join dir ''config.json'') = NotExist"
      "withEnvironment a = None" "withArgs a = None"
      "withEnvVars a = Some [NAME @ ''='' @ VALUE]" "CHR ''='' \<notin> set NAME"
      and j: "Marshal (parseValue VALUE) = Inr jv"
    note l = Load_single_env[OF h, of U T]
    show "(find_field U T (valid_utf8 (ToLower U NAME)) = None \<longrightarrow>
         Load U w T a = Inr (zero_instance T)) \<and>
      (find_field U T (valid_utf8 (ToLower U NAME)) = Some (tag, ty) \<longrightarrow>
         Load U w T a =
           (case decode_field ty jv (zero ty) of
              Inl e \<Rightarrow> Inl (UnmarshalConfig, e)
            | Inr v \<Rightarrow> Inr (assign (zero_instance T) tag v)))"
      unfolding l unmarshalToType_single by (simp add: j split: sum.splits)
  qed
  have flag: "(getConfigDirectory w a' = Inr dir \<and>
    ReadFile w (filepath_Join dir ''config.json'') = NotExist \<and>
    withEnvironment a' = None \<and> withEnvVars a' = None \<and>
    withArgs a' = Some [''--'' @ NAME, VALUE] \<and> \<not> HasPrefix VALUE ''--'' \<and>
    Marshal (parseValue VALUE) = Inr jv \<longrightarrow>
      (find_field U T (valid_utf8 (ToLower U NAME)) = None \<longrightarrow>
         Load U w T a' = Inr (zero_instance T)) \<and>
      (find_field U T (valid_utf8 (ToLower U NAME)) = Some (tag, ty) \<longrightarrow>
         Load U w T a' =
           (case decode_field ty jv (zero ty) of
              Inl e \<Rightarrow> Inl (UnmarshalConfig, e)
            | Inr v \<Rightarrow> Inr (assign (zero_instance T) tag v))))"
  proof (intro impI, elim conjE)
    assume h: "getConfigDirectory w a' = Inr dir"
      "ReadFile w (filepath_Join dir ''config.json'') = NotExist"
      "withEnvironment a' = None" "withEnvVars a' = None"
      "withArgs a' = Some [''--'' @ NAME, VALUE]" "\<not> HasPrefix VALUE ''--''"
      and j: "Marshal (parseValue VALUE) = Inr jv"
    note l = Load_single_flag[OF h, of U T]
    show "(find_field U T (valid_utf8 (ToLower U NAME)) = None \<longrightarrow>
         Load U w T a' = Inr (zero_instance T)) \<and>
      (find_field U T (valid_utf8 (ToLower U NAME)) = Some (tag, ty) \<longrightarrow>
         Load U w T a' =
           (case decode_field ty jv (zero ty) of
              Inl e \<Rightarrow> Inl (UnmarshalConfig, e)
            | Inr v \<Rightarrow> Inr (assign (zero_instance T) tag v)))"
      unfolding l unmarshalToType_single by (simp add: j split: sum.splits)
  qed
  from first none ascii pop unm env flag show ?thesis by (intro conjI)
qed

theorem projection_ignores_case_witness:
  "find_field example_tables CaseConfig ''debugmode'' = Some (''DebugMode'', TBool) \<and>
   find_field example_tables CaseConfig ''debugMode'' = Some (''debugMode'', TBool) \<and>
   find_field example_tables TestConfig ''database_url'' = None \<and>
   list_all (\<lambda>c. of_char c < (128 :: int)) ''DEBUGMODE'' \<and>
   foldName example_tables (ToLower example_tables ''DEBUGMODE'') = foldName example_tables ''debugMode'' \<and>
   unmarshalToType example_tables CaseConfig [(''port'', VInt 9000), (''debugmode'', VBool True)] =
     Inr [(''DebugMode'', VBool True), (''debugMode'', VBool False), (''port'', VInt 9000)] \<and>
   map_of [(''DebugMode'', VBool True), (''debugMode'', VBool False), (''port'', VInt 9000)] ''DebugMode'' =
     Some (VBool True) \<and>
   map_of [(''DebugMode'', VBool True), (''debugMode'', VBool False), (''port'', VInt 9000)] ''debugMode'' =
     Some (zero TBool) \<and>
   Load example_tables no_files [(ecole_lower, TString)]
       (WithEnvVars (Some [ecole_upper @ ''='' @ ''x'']) (WithConfigDirectory ''/etc/app'' New)) =
     Inr [(ecole_lower, VString ''x'')] \<and>
   Load example_tables no_files TestConfig
       (WithEnvVars (Some [''DATABASE_URL'' @ ''='' @ ''x'']) (WithConfigDirectory ''/etc/app'' New)) =
     Inr (zero_instance TestConfig) \<and>
   Load example_tables no_files TestConfig
       (WithArgs (Some [''--'' @ ''DATABASEURL'', ''postgres://prod/db''])
          (WithConfigDirectory ''/etc/app'' New)) =
     Inr [(''databaseURL'', VString ''postgres://prod/db''), (''port'', VInt 0),
          (''debugMode'', VBool False), (''timeout'', VFloat (Finite False 0 0)),
          (''name'', VString [])]"
proof -
  let ?U = example_tables
  let ?m = "[(''port'', VInt 9000), (''debugmode'', VBool True)]"
  let ?r = "[(''DebugMode'', VBool True), (''debugMode'', VBool False), (''port'', VInt 9000)]"
  let ?dir = "''/etc/app''"
  let ?e1 = "WithEnvVars (Some [ecole_upper @ ''='' @ ''x'']) (WithConfigDirectory ''/etc/app'' New)"
  let ?e2 = "WithEnvVars (Some [''DATABASE_URL'' @ ''='' @ ''x'']) (WithConfigDirectory ''/etc/app'' New)"
  let ?a = "WithArgs (Some [''--'' @ ''DATABASEURL'', ''postgres://prod/db''])
          (WithConfigDirectory ''/etc/app'' New)"
  have len: "length CaseConfig = 3" by (simp add: CaseConfig_def)
  have n0: "CaseConfig ! 0 = (''DebugMode'', TBool)" by (simp add: CaseConfig_def)
  have n1: "CaseConfig ! Suc 0 = (''debugMode'', TBool)" by (simp add: CaseConfig_def)
  have fd: "foldName ?U ''DebugMode'' = foldName ?U ''debugmode''" by code_simp
  have noex: "\<forall>g\<in>set CaseConfig. fst g \<noteq> ''debugmode''" by (simp add: CaseConfig_def)
  have "\<exists>i<length CaseConfig. foldName ?U (fst (CaseConfig ! i)) = foldName ?U ''debugmode'' \<and>
          (''DebugMode'', TBool) = CaseConfig ! i \<and>
          (\<forall>j<i. foldName ?U (fst (CaseConfig ! j)) \<noteq> foldName ?U ''debugmode'')"
    by (rule exI[of _ 0]) (simp add: len n0 fd)
  with noex have w1: "find_field ?U CaseConfig ''debugmode'' = Some (''DebugMode'', TBool)"
    using projection_ignores_case[THEN conjunct1, of ?U CaseConfig "''debugmode''" "(''DebugMode'', TBool)"]
    by blast
  have "\<exists>i<length CaseConfig. fst (CaseConfig ! i) = ''debugMode'' \<and>
          (''debugMode'', TBool) = CaseConfig ! i \<and> (\<forall>j<i. fst (CaseConfig ! j) \<noteq> ''debugMode'')"
    by (rule exI[of _ 1]) (simp add: len n0 n1)
  then have w2: "find_field ?U CaseConfig ''debugMode'' = Some (''debugMode'', TBool)"
    using projection_ignores_case[THEN conjunct1, of ?U CaseConfig "''debugMode''" "(''debugMode'', TBool)"]
    by blast
  have "list_all (\<lambda>g. foldName ?U (fst g) \<noteq> foldName ?U ''database_url'') TestConfig" by code_simp
  then have "\<forall>g\<in>set TestConfig. foldName ?U (fst g) \<noteq> foldName ?U ''database_url''"
    by (simp only: list_all_iff)
  then have w3: "find_field ?U TestConfig ''database_url'' = None"
    using projection_ignores_case[THEN conjunct2, THEN conjunct1, of ?U TestConfig "''database_url''"]
    by blast
  have asc: "list_all (\<lambda>c. of_char c < (128 :: int)) ''DEBUGMODE''" by simp
  have fm: "foldName ?U ''DEBUGMODE'' = foldName ?U ''debugMode''" by code_simp
  have w4: "foldName ?U (ToLower ?U ''DEBUGMODE'') = foldName ?U ''debugMode''"
    using projection_ignores_case[THEN conjunct2, THEN conjunct2, THEN conjunct1, of "''DEBUGMODE''" ?U]
      asc fm by simp
  have u: "unmarshalToType ?U CaseConfig ?m = Inr ?r" by code_simp
  have d: "distinct (map fst ?m)" by simp
  have k: "map_of ?m ''debugmode'' = Some (VBool True)" by simp
  have f: "find_field ?U CaseConfig (valid_utf8 ''debugmode'') = Some (''DebugMode'', TBool)"
    by code_simp
  have o: "list_all (\<lambda>kv. fst kv = ''debugmode'' \<or>
             find_field ?U CaseConfig (valid_utf8 (fst kv)) \<noteq> Some (''DebugMode'', TBool)) ?m"
    by code_simp
  have "\<exists>j v. Marshal (VBool True) = Inr j \<and> decode_field TBool j (zero TBool) = Inr v \<and>
          map_of ?r ''DebugMode'' = Some v"
    using projection_ignores_case[THEN conjunct2, THEN conjunct2, THEN conjunct2, THEN conjunct1,
        of ?U CaseConfig ?m ?r "''debugmode''" "VBool True" "''DebugMode''" TBool] u d k f o
    by blast
  then have w5: "map_of ?r ''DebugMode'' = Some (VBool True)" by auto
  have t: "map_of CaseConfig ''debugMode'' = Some TBool" by (simp add: CaseConfig_def)
  have o2: "list_all (\<lambda>kv. find_field ?U CaseConfig (valid_utf8 (fst kv)) \<noteq> Some (''debugMode'', TBool)) ?m"
    by code_simp
  have w6: "map_of ?r ''debugMode'' = Some (zero TBool)"
    using projection_ignores_case[THEN conjunct2, THEN conjunct2, THEN conjunct2, THEN conjunct2,
        THEN conjunct1, of ?U CaseConfig ?m ?r "''debugMode''" TBool] u t o2
    by blast
  have rf: "ReadFile no_files (filepath_Join ?dir ''config.json'') = NotExist"
    by (simp add: no_files_def)
  have g1: "getConfigDirectory no_files ?e1 = Inr ?dir" by code_simp
  have h1: "withEnvironment ?e1 = None" "withArgs ?e1 = None"
    "withEnvVars ?e1 = Some [ecole_upper @ ''='' @ ''x'']"
    by (simp_all add: WithEnvVars_def WithConfigDirectory_def New_def)
  have s1: "CHR ''='' \<notin> set ecole_upper" by (simp add: ecole_upper_def)
  have j1: "Marshal (parseValue ''x'') = Inr (JString ''x'')" by code_simp
  have f1: "find_field ?U [(ecole_lower, TString)] (valid_utf8 (ToLower ?U ecole_upper)) =
              Some (ecole_lower, TString)"
    by code_simp
  have w7: "Load ?U no_files [(ecole_lower, TString)] ?e1 = Inr [(ecole_lower, VString ''x'')]"
    using projection_ignores_case[where U = ?U and w = no_files and a = ?e1 and dir = ?dir and NAME = ecole_upper
          and VALUE = "''x''" and jv = "JString ''x''" and T = "[(ecole_lower, TString)]"
          and tag = ecole_lower and ty = TString,
        THEN conjunct2, THEN conjunct2, THEN conjunct2, THEN conjunct2,
        THEN conjunct2, THEN conjunct1]
      g1 rf h1 s1 j1 f1
    by (simp add: zero_instance_def)
  have g2: "getConfigDirectory no_files ?e2 = Inr ?dir" by code_simp
  have h2: "withEnvironment ?e2 = None" "withArgs ?e2 = None"
    "withEnvVars ?e2 = Some [''DATABASE_URL'' @ ''='' @ ''x'']"
    by (simp_all add: WithEnvVars_def WithConfigDirectory_def New_def)
  have s2: "CHR ''='' \<notin> set ''DATABASE_URL''" by simp
  have f2: "find_field ?U TestConfig (valid_utf8 (ToLower ?U ''DATABASE_URL'')) = None"
    by code_simp
  have w8: "Load ?U no_files TestConfig ?e2 = Inr (zero_instance TestConfig)"
    using projection_ignores_case[where U = ?U and w = no_files and a = ?e2 and dir = ?dir and NAME = "''DATABASE_URL''"
          and VALUE = "''x''" and jv = "JString ''x''" and T = TestConfig,
        THEN conjunct2, THEN conjunct2, THEN conjunct2, THEN conjunct2,
        THEN conjunct2, THEN conjunct1]
      g2 rf h2 s2 j1 f2
    by simp
  have g3: "getConfigDirectory no_files ?a = Inr ?dir" by code_simp
  have h3: "withEnvironment ?a = None" "withEnvVars ?a = None"
    "withArgs ?a = Some [''--'' @ ''DATABASEURL'', ''postgres://prod/db'']"
    by (simp_all add: WithArgs_def WithConfigDirectory_def New_def)
  have s3: "\<not> HasPrefix ''postgres://prod/db'' ''--''" by simp
  have j3: "Marshal (parseValue ''postgres://prod/db'') = Inr (JString ''postgres://prod/db'')"
    by code_simp
  have f3: "find_field ?U TestConfig (valid_utf8 (ToLower ?U ''DATABASEURL'')) =
              Some (''databaseURL'', TString)"
    by code_simp
  have z3: "assign (zero_instance TestConfig) ''databaseURL'' (VString ''postgres://prod/db'') =
      [(''databaseURL'', VString ''postgres://prod/db''), (''port'', VInt 0),
       (''debugMode'', VBool False), (''timeout'', VFloat (Finite False 0 0)),
       (''name'', VString [])]"
    by code_simp
  have w9: "Load ?U no_files TestConfig ?a =
      Inr [(''databaseURL'', VString ''postgres://prod/db''), (''port'', VInt 0),
           (''debugMode'', VBool False), (''timeout'', VFloat (Finite False 0 0)),
           (''name'', VString [])]"
    using projection_ignores_case[where U = ?U and w = no_files and a' = ?a and dir = ?dir and NAME = "''DATABASEURL''"
          and VALUE = "''postgres://prod/db''" and jv = "JString ''postgres://prod/db''"
          and T = TestConfig and tag = "''databaseURL''" and ty = TString,
        THEN conjunct2, THEN conjunct2, THEN conjunct2, THEN conjunct2,
        THEN conjunct2, THEN conjunct2]
      g3 rf h3 s3 j3 f3 z3
    by simp
  from w1 w2 w3 asc w4 u w5 w6 w7 w8 w9 show ?thesis by (intro conjI)
qed

text \<open>
  C3, as stated, fails: the key \<open>debugmode\<close>, lower-cased from the variable
  \<open>DEBUGMODE\<close>, populates the field tagged \<open>debugMode\<close>, and the key
  \<open>databaseurl\<close> from the arguments populates the field tagged \<open>databaseURL\<close>.
\<close>

theorem lowercase_key_populates_mixed_case_tag:
  "loadEnvVars example_tables (WithEnvVars (Some [''DEBUGMODE=true'']) New) [] = Inr [(''debugmode'', VBool True)] \<and>
   unmarshalToType example_tables [(''debugMode'', TBool)] [(''debugmode'', VBool True)] =
     Inr [(''debugMode'', VBool True)] \<and>
   Load example_tables no_files TestConfig
       (WithArgs (Some [''--databaseurl'', ''postgres://prod/db''])
         (WithEnvVars (Some [''DEBUGMODE=true'']) (WithConfigDirectory ''/etc/app'' New))) =
     Inr [(''databaseURL'', VString ''postgres://prod/db''), (''port'', VInt 0),
          (''debugMode'', VBool True), (''timeout'', VFloat (Finite False 0 0)),
          (''name'', VString [])]"
proof -
  have 1: "loadEnvVars example_tables (WithEnvVars (Some [''DEBUGMODE=true'']) New) [] =
             Inr [(''debugmode'', VBool True)]"
    by code_simp
  have 2: "unmarshalToType example_tables [(''debugMode'', TBool)] [(''debugmode'', VBool True)] =
     Inr [(''debugMode'', VBool True)]"
    by code_simp
  have 3: "Load example_tables no_files TestConfig
       (WithArgs (Some [''--databaseurl'', ''postgres://prod/db''])
         (WithEnvVars (Some [''DEBUGMODE=true'']) (WithConfigDirectory ''/etc/app'' New))) =
     Inr [(''databaseURL'', VString ''postgres://prod/db''), (''port'', VInt 0),
          (''debugMode'', VBool True), (''timeout'', VFloat (Finite False 0 0)),
          (''name'', VString [])]"
    by code_simp
  from 1 2 3 show ?thesis by (intro conjI)
qed

end
